theory Spec2Isabelle
  imports Main "HOL-Library.Word"
begin

section \<open>The interface between watcher.go and its platform\<close>

text \<open>
  watcher.go talks to Windows through \<open>LazyProc.Call\<close>, which returns the raw result
  register as a \<open>uintptr\<close> together with the thread's last error. Handles, hook handles
  and boolean results are kept as 64-bit words. A Go \<open>error\<close> value returned by \<open>Call\<close> is
  an optional \<open>syscall.Errno\<close>: \<open>None\<close> is the nil interface value.

  Text is modelled at the level of characters: a wide-character buffer is a list of
  characters in which the NUL character ends the text, and a Go string is a list of
  characters.

  \<open>GetWindowTextLengthW\<close> is declared to return a C \<open>int\<close>. The environment gives this
  32-bit value; \<open>Call\<close> hands it to the program in the 64-bit result register, the
  upper half being zero, and from there on the program computes with it as a \<open>uintptr\<close>:
  \<open>length+1\<close> below is addition modulo \<open>2 ^ 64\<close>.
\<close>

type_synonym uintptr = "64 word"
type_synonym uint32 = "32 word"
type_synonym go_error = "uintptr option"

text \<open>
  Every call that leaves watcher.go is recorded, in program order, in a trace. The trace
  is what makes "is never consulted", "stops the enumeration" and "is released before
  returning" statements about the code.
\<close>

datatype call =
    CallSetWinEventHook uintptr uintptr
  | CallUnhookWinEvent uintptr
  | CallGetMessageW
  | CallTranslateMessage
  | CallDispatchMessageW
  | CallGetForegroundWindow
  | CallGetWindowTextLengthW uintptr
  | CallGetWindowTextW uintptr uintptr
  | CallGetWindowThreadProcessId uintptr
  | CallOpenProcess uint32 uintptr
  | CallGetModuleFileNameExW uintptr
  | CallCloseHandle uintptr
  | CallProcesses
  | CallEnumWindows
  | CallIsWindowVisible uintptr
  | LogPrintf string
  | LogFatalf string

text \<open>
  One turn of the message pump: the value \<open>GetMessageW\<close> returns and the errors that
  \<open>TranslateMessage\<close> and \<open>DispatchMessageW\<close> report for the message it delivered.
\<close>

record message =
  Ret :: uintptr
  TranslateErr :: go_error
  DispatchErr :: go_error

text \<open>
  The environment of one run: what each operating-system query answers, and the two
  library functions whose tables live outside the repository (\<open>strings.ToLower\<close>,
  \<open>filepath.Base\<close>), taken as parameters so that every theorem holds for whatever they
  compute.
  \<^item> \<open>SetWinEventHook eventMin eventMax\<close> is the hook handle (0 when registration fails).
  \<^item> \<open>MessageQueue\<close> is the finite sequence of messages delivered so far to the pump.
  \<^item> \<open>GetWindowTextW hwnd nMaxCount\<close> is the returned count and the characters written.
  \<^item> \<open>GetWindowThreadProcessId hwnd\<close> is the process id stored through the pointer and
    the error value that \<open>Call\<close> hands back.
  \<^item> \<open>Processes\<close> is the result pair of \<open>ps.Processes()\<close>, each process given by its
    executable name.
  \<^item> \<open>EnumWindows\<close> is the sequence of top-level windows in enumeration order, and the
    result and error of the call when the callback never stops it.
\<close>

record env =
  SetWinEventHook :: "uintptr \<Rightarrow> uintptr \<Rightarrow> uintptr"
  UnhookWinEvent :: "uintptr \<Rightarrow> uintptr"
  MessageQueue :: "message list"
  GetForegroundWindow :: uintptr
  GetWindowTextLengthW :: "uintptr \<Rightarrow> uint32"
  GetWindowTextW :: "uintptr \<Rightarrow> uintptr \<Rightarrow> uintptr \<times> string"
  GetWindowThreadProcessId :: "uintptr \<Rightarrow> uint32 \<times> go_error"
  OpenProcess :: "uint32 \<Rightarrow> uintptr"
  GetModuleFileNameExW :: "uintptr \<Rightarrow> uintptr \<times> string"
  CloseHandle :: "uintptr \<Rightarrow> uintptr"
  Processes :: "string list \<times> string option"
  EnumWindows :: "uintptr list \<times> uintptr \<times> go_error"
  IsWindowVisible :: "uintptr \<Rightarrow> uintptr"
  ToLower :: "string \<Rightarrow> string"
  Base :: "string \<Rightarrow> string"

section \<open>Library functions with a fixed meaning\<close>

text \<open>\<open>strings.HasPrefix\<close>, \<open>strings.Index\<close> and \<open>strings.Contains\<close>.\<close>

definition HasPrefix :: "string \<Rightarrow> string \<Rightarrow> bool" where
  "HasPrefix s p = (length p \<le> length s \<and> take (length p) s = p)"

fun Index :: "string \<Rightarrow> string \<Rightarrow> int" where
  "Index [] substr = (if substr = [] then 0 else - 1)"
| "Index (c # s) substr =
     (if HasPrefix (c # s) substr then 0
      else (let i = Index s substr in if i < 0 then - 1 else i + 1))"

definition Contains :: "string \<Rightarrow> string \<Rightarrow> bool" where
  "Contains s substr = (0 \<le> Index s substr)"

text \<open>
  \<open>make([]uint16, n)\<close> followed by a call that writes \<open>written\<close> into it, and
  \<open>windows.UTF16ToString\<close>, which reads the buffer up to the first NUL.
\<close>

definition NUL :: char where
  "NUL = CHR 0x00"

definition buffer_after :: "nat \<Rightarrow> string \<Rightarrow> string" where
  "buffer_after n written = take n (written @ replicate n NUL)"

definition UTF16ToString :: "string \<Rightarrow> string" where
  "UTF16ToString buf = takeWhile (\<lambda>c. c \<noteq> NUL) buf"

definition MAX_PATH :: nat where
  "MAX_PATH = 260"

section \<open>The target matcher\<close>

text \<open>
  The loop \<open>for _, keyword := range keywords { if strings.Contains(lower, keyword)
  { return keyword, true } }\<close>, which watcher.go runs on the lowered title or executable
  name in each strategy.
\<close>

fun range_keywords :: "string \<Rightarrow> string list \<Rightarrow> string option" where
  "range_keywords lower [] = None"
| "range_keywords lower (keyword # keywords) =
     (if Contains lower keyword then Some keyword else range_keywords lower keywords)"

text \<open>
  \<open>getWindowText\<close> (lines 218-229). \<open>length\<close> is the \<open>uintptr\<close> that \<open>Call\<close> returns,
  \<open>length+1\<close> is computed on 64-bit words, and \<open>make([]uint16, length+1)\<close> gives a buffer
  of \<open>unat (length + 1)\<close> characters. The expression \<open>&buf[0]\<close> needs a buffer that is
  not empty; \<open>buffer_not_empty\<close> below shows that it is, since a value that fits in 32
  bits cannot make \<open>length+1\<close> wrap around to 0.
\<close>

definition getWindowText :: "env \<Rightarrow> uintptr \<Rightarrow> string \<times> call list" where
  "getWindowText e hwnd =
     (let length = (ucast (GetWindowTextLengthW e hwnd) :: uintptr) in
      if length = 0 then ([], [CallGetWindowTextLengthW hwnd])
      else
        (let (ret, written) = GetWindowTextW e hwnd (length + 1);
             buf = buffer_after (unat (length + 1)) written;
             t = [CallGetWindowTextLengthW hwnd, CallGetWindowTextW hwnd (length + 1)]
         in if ret = 0 then ([], t) else (UTF16ToString buf, t)))"

text \<open>
  The test of a window title against the keywords (lines 124-131 and 193-201): an empty
  title is not tested at all.
\<close>

definition title_keyword :: "env \<Rightarrow> string list \<Rightarrow> string \<Rightarrow> string option" where
  "title_keyword e keywords title =
     (if title \<noteq> [] then range_keywords (ToLower e title) keywords else None)"

text \<open>
  The deferred function of \<open>getForegroundTarget\<close> (lines 145-150): it runs when the
  function returns after the handle was opened.
\<close>

definition deferred_close :: "env \<Rightarrow> uintptr \<Rightarrow> call list" where
  "deferred_close e handle =
     (if CloseHandle e handle = 0
      then [CallCloseHandle handle, LogPrintf ''Warning: Failed to close process handle %v: %v'']
      else [CallCloseHandle handle])"

text \<open>
  The second half of \<open>getForegroundTarget\<close> (lines 133-164): the owning process of the
  foreground window and its executable name. The function returns at once when the error
  that \<open>Call\<close> hands back for \<open>GetWindowThreadProcessId\<close> is not nil. The documentation
  of \<open>Call\<close> says that this error is never nil; the environment may answer either way,
  so that what is proved holds under both readings.
\<close>

definition foreground_process :: "env \<Rightarrow> string list \<Rightarrow> uintptr \<Rightarrow> (string \<times> bool) \<times> call list" where
  "foreground_process e keywords hwnd =
     (let (pid, err) = GetWindowThreadProcessId e hwnd;
          t1 = [CallGetWindowThreadProcessId hwnd]
      in if err \<noteq> None then (([], False), t1)
      else if pid = 0 then (([], False), t1)
      else
        (let handle = OpenProcess e pid;
             t2 = t1 @ [CallOpenProcess pid handle]
         in if handle = 0 then (([], False), t2)
         else
           (let (n, written) = GetModuleFileNameExW e handle;
                buf = buffer_after MAX_PATH written;
                t3 = t2 @ [CallGetModuleFileNameExW handle]
            in case (if 0 < n
                     then range_keywords (ToLower e (Base e (UTF16ToString buf))) keywords
                     else None) of
                 Some keyword \<Rightarrow> ((keyword, True), t3 @ deferred_close e handle)
               | None \<Rightarrow> (([], False), t3 @ deferred_close e handle))))"

text \<open>\<open>getForegroundTarget\<close> (lines 117-165).\<close>

definition getForegroundTarget :: "env \<Rightarrow> string list \<Rightarrow> (string \<times> bool) \<times> call list" where
  "getForegroundTarget e keywords =
     (let hwnd = GetForegroundWindow e in
      if hwnd = 0 then (([], False), [CallGetForegroundWindow])
      else
        (let (title, t1) = getWindowText e hwnd in
         case title_keyword e keywords title of
           Some keyword \<Rightarrow> ((keyword, True), CallGetForegroundWindow # t1)
         | None \<Rightarrow>
             (let (r, t2) = foreground_process e keywords hwnd
              in (r, CallGetForegroundWindow # t1 @ t2))))"

text \<open>\<open>isProcessActive\<close> (lines 168-182): the loop over the processes, then the function.\<close>

fun range_processes :: "env \<Rightarrow> string list \<Rightarrow> string list \<Rightarrow> string option" where
  "range_processes e [] keywords = None"
| "range_processes e (p # processes) keywords =
     (case range_keywords (ToLower e p) keywords of
        Some keyword \<Rightarrow> Some keyword
      | None \<Rightarrow> range_processes e processes keywords)"

definition isProcessActive :: "env \<Rightarrow> string list \<Rightarrow> (string \<times> bool) \<times> call list" where
  "isProcessActive e keywords =
     (let (processes, err) = Processes e in
      if err \<noteq> None then (([], False), [CallProcesses])
      else
        (case range_processes e processes keywords of
           Some keyword \<Rightarrow> ((keyword, True), [CallProcesses])
         | None \<Rightarrow> (([], False), [CallProcesses])))"

text \<open>
  The callback of \<open>isWindowActive\<close> (lines 187-203). It captures \<open>foundKeyword\<close>, so the
  variable is passed in and returned. The result 0 asks to stop the enumeration.
\<close>

definition cb :: "env \<Rightarrow> string list \<Rightarrow> uintptr \<Rightarrow> string \<Rightarrow> (uintptr \<times> string) \<times> call list" where
  "cb e keywords hwnd foundKeyword =
     (if IsWindowVisible e hwnd = 0 then ((1, foundKeyword), [CallIsWindowVisible hwnd])
      else
        (let (title, t) = getWindowText e hwnd in
         case title_keyword e keywords title of
           Some keyword \<Rightarrow> ((0, keyword), CallIsWindowVisible hwnd # t)
         | None \<Rightarrow> ((1, foundKeyword), CallIsWindowVisible hwnd # t)))"

text \<open>
  What \<open>EnumWindows\<close> does with a callback: it hands it the windows one after the other
  until the callback returns 0. The flag tells whether the callback stopped it.
\<close>

fun enumerate :: "(uintptr \<Rightarrow> 's \<Rightarrow> (uintptr \<times> 's) \<times> call list) \<Rightarrow> uintptr list \<Rightarrow> 's
    \<Rightarrow> (bool \<times> 's) \<times> call list" where
  "enumerate f [] s = ((False, s), [])"
| "enumerate f (hwnd # hwnds) s =
     (case f hwnd s of
        ((r, s'), t) \<Rightarrow>
          if r = 0 then ((True, s'), t)
          else (case enumerate f hwnds s' of (x, t') \<Rightarrow> (x, t @ t')))"

text \<open>\<open>isWindowActive\<close> (lines 185-216).\<close>

definition isWindowActive :: "env \<Rightarrow> string list \<Rightarrow> (string \<times> bool) \<times> call list" where
  "isWindowActive e keywords =
     (let (hwnds, ret0, err) = EnumWindows e;
          ((stopped, foundKeyword), t) = enumerate (cb e keywords) hwnds [];
          ret = (if stopped then 0 else ret0);
          t' = CallEnumWindows # t @
               (if ret = 0 \<and> err \<noteq> None
                then [LogPrintf ''Warning: EnumWindows call failed with an error: %v'']
                else [])
      in if foundKeyword \<noteq> [] then ((foundKeyword, True), t') else (([], False), t'))"

text \<open>
  \<open>FirstActiveTarget\<close> (lines 98-114). A Go map is visited in an order that the runtime
  chooses anew for each loop: \<open>targets\<close> is the mapping as a list of its entries in the
  order in which this call's \<open>range\<close> visits them.
\<close>

definition FirstActiveTarget :: "env \<Rightarrow> (string \<times> string) list \<Rightarrow> (string \<times> bool) \<times> call list" where
  "FirstActiveTarget e targets =
     (let keywords = map fst targets in
      case getForegroundTarget e keywords of
        ((name, ok), t1) \<Rightarrow>
          if ok then ((name, True), t1)
          else
            (case isProcessActive e keywords of
               ((name, ok), t2) \<Rightarrow>
                 if ok then ((name, True), t1 @ t2)
                 else
                   (case isWindowActive e keywords of
                      ((name, ok), t3) \<Rightarrow>
                        if ok then ((name, True), t1 @ t2 @ t3)
                        else (([], False), t1 @ t2 @ t3))))"

section \<open>The event watcher\<close>

text \<open>
  \<open>err != nil && err.(syscall.Errno) != 0\<close>, the test after \<open>TranslateMessage\<close> and
  \<open>DispatchMessageW\<close>.
\<close>

definition errno_set :: "go_error \<Rightarrow> bool" where
  "errno_set err = (case err of None \<Rightarrow> False | Some n \<Rightarrow> n \<noteq> 0)"

text \<open>\<open>int32(ret)\<close>: the low 32 bits of the result, read as a signed number.\<close>

definition int32 :: "uintptr \<Rightarrow> int" where
  "int32 ret = sint (ucast ret :: 32 word)"

text \<open>
  The message loop (lines 78-92) on the messages delivered so far. It ends by \<open>break\<close>,
  or by \<open>log.Fatalf\<close>, which exits the process, or it is blocked in \<open>GetMessageW\<close> once
  the delivered messages are used up.
\<close>

datatype loop_end = Break | Fatal | Blocked

fun message_loop :: "message list \<Rightarrow> loop_end \<times> call list" where
  "message_loop [] = (Blocked, [CallGetMessageW])"
| "message_loop (m # ms) =
     (if int32 (Ret m) = - 1 then (Break, [CallGetMessageW])
      else if errno_set (TranslateErr m)
      then (Fatal, [CallGetMessageW, CallTranslateMessage,
                    LogFatalf ''TranslateMessage failed: %v''])
      else if errno_set (DispatchErr m)
      then (Fatal, [CallGetMessageW, CallTranslateMessage, CallDispatchMessageW,
                    LogFatalf ''DispatchMessageW failed: %v''])
      else (case message_loop ms of
              (x, t) \<Rightarrow> (x, [CallGetMessageW, CallTranslateMessage, CallDispatchMessageW] @ t)))"

text \<open>The two deferred functions (lines 62-73).\<close>

definition deferred_unhook :: "env \<Rightarrow> uintptr \<Rightarrow> string \<Rightarrow> call list" where
  "deferred_unhook e hook warning =
     (if UnhookWinEvent e hook = 0
      then [CallUnhookWinEvent hook, LogPrintf warning]
      else [CallUnhookWinEvent hook])"

text \<open>
  The function that \<open>StartEventWatcher\<close> starts with \<open>go\<close> (lines 47-93). The process
  has exited (\<open>log.Fatalf\<close>), or the function has returned, with its deferred functions
  run in reverse order, or it is still pumping messages.
\<close>

datatype outcome = Exited | Returned | Pumping

definition eventSystemForeground :: uintptr where
  "eventSystemForeground = 0x0003"

definition eventObjectCreate :: uintptr where
  "eventObjectCreate = 0x8000"

definition eventObjectDestroy :: uintptr where
  "eventObjectDestroy = 0x8001"

definition StartEventWatcher :: "env \<Rightarrow> outcome \<times> call list" where
  "StartEventWatcher e =
     (let hookForeground = SetWinEventHook e eventSystemForeground eventSystemForeground;
          t1 = [CallSetWinEventHook eventSystemForeground eventSystemForeground]
      in if hookForeground = 0
         then (Exited, t1 @ [LogFatalf ''Fatal: Could not set foreground event hook: %v''])
         else
           (let hookCreate = SetWinEventHook e eventObjectCreate eventObjectDestroy;
                t2 = t1 @ [CallSetWinEventHook eventObjectCreate eventObjectDestroy]
            in if hookCreate = 0
               then (Exited, t2 @ [LogFatalf ''Fatal: Could not set create/destroy event hook: %v''])
               else
                 (case message_loop (MessageQueue e) of
                    (Break, t) \<Rightarrow>
                      (Returned, t2 @ t @
                         deferred_unhook e hookCreate
                           ''Warning: Failed to unhook create/destroy event hook: %v'' @
                         deferred_unhook e hookForeground
                           ''Warning: Failed to unhook foreground event hook: %v'')
                  | (Fatal, t) \<Rightarrow> (Exited, t2 @ t)
                  | (Blocked, t) \<Rightarrow> (Pumping, t2 @ t))))"


section \<open>Observations on traces and on the environment\<close>

text \<open>
  The process handles that a trace leaves open: \<open>OpenProcess\<close> adds the handle it
  returned, unless it is 0, and \<open>CloseHandle\<close> removes the handle it is called on.
\<close>

fun open_handles :: "call list \<Rightarrow> uintptr list \<Rightarrow> uintptr list" where
  "open_handles [] hs = hs"
| "open_handles (CallOpenProcess pid h # t) hs = open_handles t (if h = 0 then hs else h # hs)"
| "open_handles (CallCloseHandle h # t) hs = open_handles t (remove1 h hs)"
| "open_handles (c # t) hs = open_handles t hs"

text \<open>
  The windows that the enumeration callback was run on (each run starts with
  \<open>IsWindowVisible\<close>), and the windows whose title was queried, both in program order.
\<close>

fun examined :: "call list \<Rightarrow> uintptr list" where
  "examined [] = []"
| "examined (CallIsWindowVisible h # t) = h # examined t"
| "examined (c # t) = examined t"

fun title_queries :: "call list \<Rightarrow> uintptr list" where
  "title_queries [] = []"
| "title_queries (CallGetWindowTextLengthW h # t) = h # title_queries t"
| "title_queries (c # t) = title_queries t"

text \<open>
  The value of the variable \<open>length\<close> of \<open>getWindowText\<close>, and the strings that the
  strategies compare keywords with: the title of the foreground
  window, the file name of its process's executable, the executable names of the running
  processes, and the titles of the visible windows.
\<close>

definition queried_length :: "env \<Rightarrow> uintptr \<Rightarrow> uintptr" where
  "queried_length e hwnd = ucast (GetWindowTextLengthW e hwnd)"

definition foreground_title :: "env \<Rightarrow> string" where
  "foreground_title e = fst (getWindowText e (GetForegroundWindow e))"

definition executable_name :: "env \<Rightarrow> uintptr \<Rightarrow> string" where
  "executable_name e hwnd =
     Base e (UTF16ToString (buffer_after MAX_PATH (snd (GetModuleFileNameExW e
       (OpenProcess e (fst (GetWindowThreadProcessId e hwnd)))))))"

definition foreground_exe :: "env \<Rightarrow> string" where
  "foreground_exe e = executable_name e (GetForegroundWindow e)"

text \<open>
  The queries about the process of a window have all succeeded: no error and a process
  id from \<open>GetWindowThreadProcessId\<close>, a handle from \<open>OpenProcess\<close>, and a path of
  positive length from \<open>GetModuleFileNameExW\<close>.
\<close>

definition executable_found :: "env \<Rightarrow> uintptr \<Rightarrow> bool" where
  "executable_found e hwnd =
     (snd (GetWindowThreadProcessId e hwnd) = None
      \<and> fst (GetWindowThreadProcessId e hwnd) \<noteq> 0
      \<and> OpenProcess e (fst (GetWindowThreadProcessId e hwnd)) \<noteq> 0
      \<and> 0 < fst (GetModuleFileNameExW e (OpenProcess e (fst (GetWindowThreadProcessId e hwnd)))))"

definition visible_titles :: "env \<Rightarrow> string list" where
  "visible_titles e =
     map (\<lambda>h. fst (getWindowText e h)) (filter (\<lambda>h. IsWindowVisible e h \<noteq> 0) (fst (EnumWindows e)))"

definition candidates :: "env \<Rightarrow> string list" where
  "candidates e = foreground_title e # foreground_exe e # fst (Processes e) @ visible_titles e"

text \<open>
  The keyword that the enumeration callback finds on a window: none on a window that is
  not visible, and otherwise what the test of its title gives.
\<close>

definition window_keyword :: "env \<Rightarrow> string list \<Rightarrow> uintptr \<Rightarrow> string option" where
  "window_keyword e keywords hwnd =
     (if IsWindowVisible e hwnd = 0 then None
      else title_keyword e keywords (fst (getWindowText e hwnd)))"

text \<open>
  \<open>GetMessageW\<close> returns 0 when the message it retrieved is \<open>WM_QUIT\<close>, and -1 when
  it failed (its documented contract).
\<close>

definition quit_retrieved :: "message \<Rightarrow> bool" where
  "quit_retrieved m = (int32 (Ret m) = 0)"

text \<open>
  The turn of the pump in which \<open>WM_QUIT\<close> is retrieved, and a turn in which
  \<open>GetMessageW\<close> fails; neither \<open>TranslateMessage\<close> nor \<open>DispatchMessageW\<close> reports an
  error.
\<close>

definition quit_message :: message where
  "quit_message = \<lparr>Ret = 0, TranslateErr = Some 0, DispatchErr = Some 0\<rparr>"

definition failed_message :: message where
  "failed_message = \<lparr>Ret = 0xFFFFFFFF, TranslateErr = Some 0, DispatchErr = Some 0\<rparr>"

section \<open>A concrete desktop\<close>

text \<open>
  An instance of the environment on ASCII text, used to run the definitions: lowering of
  the letters A to Z, and the last element of a path.
\<close>

definition lower_char :: "char \<Rightarrow> char" where
  "lower_char c =
     (case map_of (zip ''ABCDEFGHIJKLMNOPQRSTUVWXYZ'' ''abcdefghijklmnopqrstuvwxyz'') c of
        Some l \<Rightarrow> l
      | None \<Rightarrow> c)"

definition ascii_ToLower :: "string \<Rightarrow> string" where
  "ascii_ToLower s = map lower_char s"

definition last_element :: "string \<Rightarrow> string" where
  "last_element path = rev (takeWhile (\<lambda>c. c \<noteq> CHR 0x5C \<and> c \<noteq> CHR ''/'') (rev path))"

definition desk_hook :: "uintptr \<Rightarrow> uintptr \<Rightarrow> uintptr" where
  "desk_hook eventMin eventMax = (if eventMin = 3 then 16 else 17)"

definition no_hook :: "uintptr \<Rightarrow> uintptr \<Rightarrow> uintptr" where
  "no_hook eventMin eventMax = 0"

definition foreground_hook_only :: "uintptr \<Rightarrow> uintptr \<Rightarrow> uintptr" where
  "foreground_hook_only eventMin eventMax = (if eventMin = 3 then 16 else 0)"

definition desk_unhook :: "uintptr \<Rightarrow> uintptr" where
  "desk_unhook hook = 1"

definition unhook_fails :: "uintptr \<Rightarrow> uintptr" where
  "unhook_fails hook = 0"

definition desk_length :: "uintptr \<Rightarrow> uint32" where
  "desk_length hwnd =
     (if hwnd = 1 then 31 else if hwnd = 2 then 13 else if hwnd = 3 then 15 else 0)"

definition desk_text :: "uintptr \<Rightarrow> uintptr \<Rightarrow> uintptr \<times> string" where
  "desk_text hwnd nMaxCount =
     (if hwnd = 1 then (31, ''index.html - Visual Studio Code'' @ [NUL])
      else if hwnd = 2 then (13, ''Secret Chrome'' @ [NUL])
      else if hwnd = 3 then (15, ''Spotify Premium'' @ [NUL])
      else (0, []))"

definition text_fails :: "uintptr \<Rightarrow> uintptr \<Rightarrow> uintptr \<times> string" where
  "text_fails hwnd nMaxCount = (0, [])"

definition desk_pid :: "uintptr \<Rightarrow> uint32 \<times> go_error" where
  "desk_pid hwnd = (if hwnd = 1 then (42, None) else (0, Some 1400))"

definition pid_error :: "uintptr \<Rightarrow> uint32 \<times> go_error" where
  "pid_error hwnd = (42, Some 0)"

definition desk_open :: "uint32 \<Rightarrow> uintptr" where
  "desk_open pid = (if pid = 42 then 128 else 0)"

definition open_fails :: "uint32 \<Rightarrow> uintptr" where
  "open_fails pid = 0"

definition desk_module :: "uintptr \<Rightarrow> uintptr \<times> string" where
  "desk_module handle = (if handle = 128 then (16, ''C:/Apps/Code.exe'' @ [NUL]) else (0, []))"

definition desk_close :: "uintptr \<Rightarrow> uintptr" where
  "desk_close handle = 1"

definition desk_visible :: "uintptr \<Rightarrow> uintptr" where
  "desk_visible hwnd = (if hwnd = 3 then 1 else 0)"

definition all_visible :: "uintptr \<Rightarrow> uintptr" where
  "all_visible hwnd = 1"

text \<open>
  The foreground window 1 is titled "index.html - Visual Studio Code" and belongs to
  process 42, which runs Code.exe; explorer.exe and chrome.exe are running; the windows
  enumerated are 2, which is hidden, and 3, which is visible and titled "Spotify
  Premium". The pump delivers one ordinary message and then fails.
\<close>

definition desk :: env where
  "desk = \<lparr> SetWinEventHook = desk_hook, UnhookWinEvent = desk_unhook,
     MessageQueue = [\<lparr>Ret = 1, TranslateErr = Some 0, DispatchErr = Some 0\<rparr>,
                     \<lparr>Ret = 0xFFFFFFFF, TranslateErr = Some 0, DispatchErr = Some 0\<rparr>],
     GetForegroundWindow = 1, GetWindowTextLengthW = desk_length, GetWindowTextW = desk_text,
     GetWindowThreadProcessId = desk_pid, OpenProcess = desk_open,
     GetModuleFileNameExW = desk_module, CloseHandle = desk_close,
     Processes = ([''explorer.exe'', ''chrome.exe''], None),
     EnumWindows = ([2, 3], 1, Some 0), IsWindowVisible = desk_visible,
     ToLower = ascii_ToLower, Base = last_element \<rparr>"

text \<open>
  A desktop whose windows 1 and 2 are visible, window 1 (the foreground window) having
  an empty title and window 2 the title "vs code"; explorer.exe is the only process.
\<close>

definition blank_length :: "uintptr \<Rightarrow> uint32" where
  "blank_length hwnd = (if hwnd = 2 then 7 else 0)"

definition blank_text :: "uintptr \<Rightarrow> uintptr \<Rightarrow> uintptr \<times> string" where
  "blank_text hwnd nMaxCount = (if hwnd = 2 then (7, ''vs code'' @ [NUL]) else (0, []))"

definition blank :: env where
  "blank = \<lparr> SetWinEventHook = desk_hook, UnhookWinEvent = desk_unhook,
     MessageQueue = [],
     GetForegroundWindow = 1, GetWindowTextLengthW = blank_length, GetWindowTextW = blank_text,
     GetWindowThreadProcessId = pid_error, OpenProcess = open_fails,
     GetModuleFileNameExW = desk_module, CloseHandle = desk_close,
     Processes = ([''explorer.exe''], None),
     EnumWindows = ([1, 2], 1, Some 0), IsWindowVisible = all_visible,
     ToLower = ascii_ToLower, Base = last_element \<rparr>"

lemmas desk_defs = desk_def blank_def desk_hook_def no_hook_def foreground_hook_only_def
  desk_unhook_def unhook_fails_def desk_length_def desk_text_def text_fails_def desk_pid_def
  pid_error_def desk_open_def open_fails_def desk_module_def desk_close_def desk_visible_def
  all_visible_def blank_length_def blank_text_def ascii_ToLower_def lower_char_def
  last_element_def

lemmas matcher_defs = FirstActiveTarget_def getForegroundTarget_def foreground_process_def
  isProcessActive_def isWindowActive_def cb_def getWindowText_def title_keyword_def
  deferred_close_def buffer_after_def UTF16ToString_def NUL_def MAX_PATH_def Contains_def
  HasPrefix_def

lemmas watcher_defs = StartEventWatcher_def eventSystemForeground_def eventObjectCreate_def
  eventObjectDestroy_def int32_def errno_set_def deferred_unhook_def


section \<open>Substring containment\<close>

lemma HasPrefix_iff: "HasPrefix s p \<longleftrightarrow> (\<exists>post. s = p @ post)"
  unfolding HasPrefix_def
  by (metis append_eq_conv_conj append_take_drop_id le_add1 length_append)

lemma Index_nonneg_iff: "0 \<le> Index s substr \<longleftrightarrow> (\<exists>pre post. s = pre @ substr @ post)"
proof (induction s)
  case Nil
  then show ?case by auto
next
  case (Cons c s)
  have "(\<exists>pre post. c # s = pre @ substr @ post)
        \<longleftrightarrow> (\<exists>post. c # s = substr @ post) \<or> (\<exists>pre post. s = pre @ substr @ post)"
    (is "?L \<longleftrightarrow> ?A \<or> ?B")
  proof
    assume ?L
    then obtain pre post where eq: "c # s = pre @ substr @ post" by blast
    show "?A \<or> ?B"
    proof (cases pre)
      case Nil
      with eq show ?thesis by auto
    next
      case (Cons a pre')
      with eq have "s = pre' @ substr @ post" by simp
      then show ?thesis by blast
    qed
  next
    assume "?A \<or> ?B"
    then show ?L
    proof
      assume ?A
      then obtain post where "c # s = [] @ substr @ post" by auto
      then show ?L by blast
    next
      assume ?B
      then obtain pre post where "s = pre @ substr @ post" by blast
      then have "c # s = (c # pre) @ substr @ post" by simp
      then show ?L by blast
    qed
  qed
  moreover have "0 \<le> Index (c # s) substr \<longleftrightarrow> HasPrefix (c # s) substr \<or> 0 \<le> Index s substr"
    by (simp add: Let_def)
  ultimately show ?case
    using Cons.IH by (simp add: HasPrefix_iff)
qed

lemma Contains_iff: "Contains s substr \<longleftrightarrow> (\<exists>pre post. s = pre @ substr @ post)"
  by (simp add: Contains_def Index_nonneg_iff)

lemma range_keywords_find: "range_keywords lower ks = find (Contains lower) ks"
  by (induction ks) auto

lemma range_keywords_Some:
  "range_keywords lower ks = Some k \<Longrightarrow> k \<in> set ks \<and> Contains lower k"
  by (induction ks) (auto split: if_splits)

lemma range_keywords_None:
  "range_keywords lower ks = None \<longleftrightarrow> (\<forall>k\<in>set ks. \<not> Contains lower k)"
  by (induction ks) auto

lemma range_keywords_unique:
  "k \<in> set ks \<Longrightarrow> Contains lower k \<Longrightarrow> \<forall>k'\<in>set ks. k' \<noteq> k \<longrightarrow> \<not> Contains lower k'
   \<Longrightarrow> range_keywords lower ks = Some k"
proof (induction ks)
  case Nil
  then show ?case by simp
next
  case (Cons a ks)
  show ?case
  proof (cases "a = k")
    case True
    with Cons.prems(2) show ?thesis by simp
  next
    case False
    from Cons.prems(3) False have na: "\<not> Contains lower a" by simp
    from False Cons.prems(1) have kin: "k \<in> set ks" by simp
    from Cons.prems(3) have rest: "\<forall>k'\<in>set ks. k' \<noteq> k \<longrightarrow> \<not> Contains lower k'" by simp
    from Cons.IH [OF kin Cons.prems(2) rest] na show ?thesis by simp
  qed
qed

lemma title_keyword_Some:
  "title_keyword e ks title = Some k \<Longrightarrow> k \<in> set ks \<and> title \<noteq> [] \<and> Contains (ToLower e title) k"
proof -
  assume a: "title_keyword e ks title = Some k"
  then have t: "title \<noteq> []"
    by (cases "title = []") (simp_all add: title_keyword_def)
  with a have "range_keywords (ToLower e title) ks = Some k"
    by (simp add: title_keyword_def)
  with t show ?thesis
    using range_keywords_Some [of "ToLower e title" ks k] by simp
qed

lemma title_keyword_None:
  "title_keyword e ks title = None \<longleftrightarrow> title = [] \<or> (\<forall>k\<in>set ks. \<not> Contains (ToLower e title) k)"
  by (simp add: title_keyword_def range_keywords_None)

lemma range_processes_Some:
  "range_processes e ps ks = Some k \<Longrightarrow> k \<in> set ks \<and> (\<exists>p\<in>set ps. Contains (ToLower e p) k)"
proof (induction ps)
  case Nil
  then show ?case by simp
next
  case (Cons a ps)
  show ?case
  proof (cases "range_keywords (ToLower e a) ks")
    case None
    with Cons.prems have "range_processes e ps ks = Some k" by simp
    with Cons.IH show ?thesis by simp
  next
    case (Some k')
    with Cons.prems have "k' = k" by simp
    with Some show ?thesis
      using range_keywords_Some [of "ToLower e a" ks k] by simp
  qed
qed

lemma range_processes_None:
  "range_processes e ps ks = None \<longleftrightarrow> (\<forall>p\<in>set ps. \<forall>k\<in>set ks. \<not> Contains (ToLower e p) k)"
proof (induction ps)
  case Nil
  then show ?case by simp
next
  case (Cons a ps)
  show ?case
  proof (cases "range_keywords (ToLower e a) ks")
    case None
    then have "\<forall>k\<in>set ks. \<not> Contains (ToLower e a) k"
      by (simp add: range_keywords_None)
    with None Cons.IH show ?thesis by simp
  next
    case (Some k')
    then have "k' \<in> set ks \<and> Contains (ToLower e a) k'"
      by (rule range_keywords_Some)
    with Some show ?thesis by auto
  qed
qed

section \<open>The text-retrieval helper\<close>

lemma unat_ucast_32_64: "unat (ucast (x :: 32 word) :: 64 word) = unat x"
proof -
  have "unat x < 2 ^ 32"
    using unsigned_less [of x, where 'a = nat] by simp
  then have "unat x < 2 ^ 64"
    by (rule less_trans) simp
  then show ?thesis
    by (simp add: unsigned_ucast_eq take_bit_nat_eq_self)
qed

lemma unat_ucast_Suc: "unat ((ucast (x :: 32 word) :: 64 word) + 1) = unat x + 1"
proof -
  have "unat x < 2 ^ 32"
    using unsigned_less [of x, where 'a = nat] by simp
  then have "unat (ucast x :: 64 word) + unat (1 :: 64 word) < 2 ^ LENGTH(64)"
    by (simp add: unat_ucast_32_64)
  then have "unat ((ucast x :: 64 word) + 1) = unat (ucast x :: 64 word) + unat (1 :: 64 word)"
    by (simp only: unat_add_lem)
  then show ?thesis
    by (simp add: unat_ucast_32_64)
qed

lemma buffer_not_empty: "0 < unat (queried_length e hwnd + 1)"
  by (simp add: queried_length_def unat_ucast_Suc)

lemma buffer_size: "unat (queried_length e hwnd + 1) = unat (queried_length e hwnd) + 1"
  by (simp add: queried_length_def unat_ucast_Suc unat_ucast_32_64)

lemma queried_length_no_wrap: "queried_length e hwnd + 1 \<noteq> 0"
proof
  assume "queried_length e hwnd + 1 = 0"
  then have "unat (queried_length e hwnd + 1) = 0" by simp
  with buffer_not_empty [of e hwnd] show False by simp
qed

lemma getWindowText_trace:
  "snd (getWindowText e h) =
     (if queried_length e h = 0 then [CallGetWindowTextLengthW h]
      else [CallGetWindowTextLengthW h, CallGetWindowTextW h (queried_length e h + 1)])"
  by (simp add: getWindowText_def queried_length_def Let_def split: prod.splits)

lemma UTF16ToString_terminated:
  "NUL \<notin> set title \<Longrightarrow> length title < n \<Longrightarrow> UTF16ToString (buffer_after n (title @ [NUL])) = title"
proof -
  assume nul: "NUL \<notin> set title" and len: "length title < n"
  from len obtain m where m: "n - length title = Suc m"
    by (cases "n - length title") auto
  have "buffer_after n (title @ [NUL]) = title @ NUL # take m (replicate n NUL)"
    using len m by (simp add: buffer_after_def)
  moreover have "takeWhile (\<lambda>c. c \<noteq> NUL) (title @ NUL # take m (replicate n NUL)) = title"
    using nul by (auto simp: takeWhile_tail)
  ultimately show ?thesis by (simp add: UTF16ToString_def)
qed

lemma getWindowText_length0:
  "queried_length e hwnd = 0 \<Longrightarrow> getWindowText e hwnd = ([], [CallGetWindowTextLengthW hwnd])"
  by (simp add: getWindowText_def queried_length_def)

lemma getWindowText_ret0:
  "fst (GetWindowTextW e hwnd (queried_length e hwnd + 1)) = 0 \<Longrightarrow> fst (getWindowText e hwnd) = []"
  by (auto simp: getWindowText_def queried_length_def Let_def split: prod.splits)

lemma getWindowText_value:
  "queried_length e hwnd \<noteq> 0 \<Longrightarrow>
   fst (GetWindowTextW e hwnd (queried_length e hwnd + 1)) \<noteq> 0 \<Longrightarrow>
   fst (getWindowText e hwnd) =
     UTF16ToString (buffer_after (unat (queried_length e hwnd + 1))
       (snd (GetWindowTextW e hwnd (queried_length e hwnd + 1))))"
  by (auto simp: getWindowText_def queried_length_def Let_def split: prod.splits)

text \<open>
  Claim C6. \<open>getWindowText\<close> first asks for the length of the title; \<open>queried_length\<close> is
  the value it gets, a 64-bit word. A length of 0 gives the empty string with no further
  call and no log entry. Otherwise it asks for the text with \<open>length+1\<close> as the buffer
  size; this sum does not wrap around, so that the buffer holds one character more than
  the queried length and is not empty. A result of 0 from the retrieval gives the empty
  string; any other result gives the text of the buffer up to the first NUL, which is the
  whole title when the system wrote a title of at most the queried length, followed by NUL.
\<close>

theorem getWindowText_spec:
  "(queried_length e hwnd = 0 \<longrightarrow>
      getWindowText e hwnd = ([], [CallGetWindowTextLengthW hwnd]))
   \<and> (queried_length e hwnd \<noteq> 0 \<longrightarrow>
      snd (getWindowText e hwnd) =
        [CallGetWindowTextLengthW hwnd,
         CallGetWindowTextW hwnd (queried_length e hwnd + 1)])
   \<and> queried_length e hwnd + 1 \<noteq> 0
   \<and> unat (queried_length e hwnd + 1) = unat (queried_length e hwnd) + 1
   \<and> (fst (GetWindowTextW e hwnd (queried_length e hwnd + 1)) = 0 \<longrightarrow>
      fst (getWindowText e hwnd) = [])
   \<and> (queried_length e hwnd \<noteq> 0
      \<and> fst (GetWindowTextW e hwnd (queried_length e hwnd + 1)) \<noteq> 0 \<longrightarrow>
      fst (getWindowText e hwnd) =
        UTF16ToString (buffer_after (unat (queried_length e hwnd) + 1)
          (snd (GetWindowTextW e hwnd (queried_length e hwnd + 1)))))
   \<and> (queried_length e hwnd \<noteq> 0
      \<and> fst (GetWindowTextW e hwnd (queried_length e hwnd + 1)) \<noteq> 0
      \<and> snd (GetWindowTextW e hwnd (queried_length e hwnd + 1)) = title @ [NUL]
      \<and> NUL \<notin> set title \<and> length title \<le> unat (queried_length e hwnd) \<longrightarrow>
      fst (getWindowText e hwnd) = title)"
proof (intro conjI impI)
  assume "queried_length e hwnd = 0"
  then show "getWindowText e hwnd = ([], [CallGetWindowTextLengthW hwnd])"
    by (rule getWindowText_length0)
next
  assume "queried_length e hwnd \<noteq> 0"
  then show "snd (getWindowText e hwnd) =
        [CallGetWindowTextLengthW hwnd,
         CallGetWindowTextW hwnd (queried_length e hwnd + 1)]"
    by (simp add: getWindowText_trace)
next
  show "queried_length e hwnd + 1 \<noteq> 0"
    by (rule queried_length_no_wrap)
next
  show "unat (queried_length e hwnd + 1) = unat (queried_length e hwnd) + 1"
    by (rule buffer_size)
next
  assume "fst (GetWindowTextW e hwnd (queried_length e hwnd + 1)) = 0"
  then show "fst (getWindowText e hwnd) = []"
    by (rule getWindowText_ret0)
next
  assume "queried_length e hwnd \<noteq> 0
      \<and> fst (GetWindowTextW e hwnd (queried_length e hwnd + 1)) \<noteq> 0"
  then show "fst (getWindowText e hwnd) =
        UTF16ToString (buffer_after (unat (queried_length e hwnd) + 1)
          (snd (GetWindowTextW e hwnd (queried_length e hwnd + 1))))"
    by (simp add: getWindowText_value buffer_size)
next
  assume a: "queried_length e hwnd \<noteq> 0
      \<and> fst (GetWindowTextW e hwnd (queried_length e hwnd + 1)) \<noteq> 0
      \<and> snd (GetWindowTextW e hwnd (queried_length e hwnd + 1)) = title @ [NUL]
      \<and> NUL \<notin> set title \<and> length title \<le> unat (queried_length e hwnd)"
  then have "fst (getWindowText e hwnd) =
      UTF16ToString (buffer_after (unat (queried_length e hwnd) + 1) (title @ [NUL]))"
    by (simp add: getWindowText_value buffer_size)
  also have "\<dots> = title"
    using a by (intro UTF16ToString_terminated) auto
  finally show "fst (getWindowText e hwnd) = title" .
qed

text \<open>
  On the concrete desktop: window 4 has no title, window 3 is titled "Spotify Premium",
  and a failing text retrieval gives the empty string.
\<close>

theorem getWindowText_spec_witness:
  "getWindowText desk 4 = ([], [CallGetWindowTextLengthW 4])
   \<and> snd (getWindowText desk 3) = [CallGetWindowTextLengthW 3, CallGetWindowTextW 3 16]
   \<and> fst (getWindowText desk 3) = ''Spotify Premium''
   \<and> fst (getWindowText (desk\<lparr>GetWindowTextW := text_fails\<rparr>) 3) = []"
proof -
  have l4: "queried_length desk 4 = 0"
    by (simp add: queried_length_def desk_defs)
  have l3: "queried_length desk 3 \<noteq> 0" and n3: "queried_length desk 3 + 1 = 16"
    by (simp_all add: queried_length_def desk_defs)
  have t3: "queried_length desk 3 \<noteq> 0
      \<and> fst (GetWindowTextW desk 3 (queried_length desk 3 + 1)) \<noteq> 0
      \<and> snd (GetWindowTextW desk 3 (queried_length desk 3 + 1)) = ''Spotify Premium'' @ [NUL]
      \<and> NUL \<notin> set ''Spotify Premium''
      \<and> length ''Spotify Premium'' \<le> unat (queried_length desk 3)"
    by (simp add: queried_length_def desk_defs NUL_def)
  have f3: "fst (GetWindowTextW (desk\<lparr>GetWindowTextW := text_fails\<rparr>) 3
      (queried_length (desk\<lparr>GetWindowTextW := text_fails\<rparr>) 3 + 1)) = 0"
    by (simp add: desk_defs)
  have "getWindowText desk 4 = ([], [CallGetWindowTextLengthW 4])"
    using getWindowText_spec [of desk 4 "[]"] l4 by blast
  moreover have "snd (getWindowText desk 3) = [CallGetWindowTextLengthW 3, CallGetWindowTextW 3 16]"
    using getWindowText_spec [of desk 3 "[]"] l3 n3 by simp
  moreover have "fst (getWindowText desk 3) = ''Spotify Premium''"
    using getWindowText_spec [of desk 3 "''Spotify Premium''"] t3 by blast
  moreover have "fst (getWindowText (desk\<lparr>GetWindowTextW := text_fails\<rparr>) 3) = []"
    using getWindowText_spec [of "desk\<lparr>GetWindowTextW := text_fails\<rparr>" 3 "[]"] f3 by blast
  ultimately show ?thesis by blast
qed


section \<open>Results of the strategies\<close>

lemma foreground_process_True:
  "fst (foreground_process e ks h) = (k, True) \<Longrightarrow>
   k \<in> set ks \<and> Contains (ToLower e (executable_name e h)) k"
proof -
  assume a: "fst (foreground_process e ks h) = (k, True)"
  obtain pid err where p: "GetWindowThreadProcessId e h = (pid, err)"
    by (cases "GetWindowThreadProcessId e h")
  obtain n written where m: "GetModuleFileNameExW e (OpenProcess e pid) = (n, written)"
    by (cases "GetModuleFileNameExW e (OpenProcess e pid)")
  from a p m have "range_keywords (ToLower e (Base e (UTF16ToString (buffer_after MAX_PATH written)))) ks = Some k"
    by (simp add: foreground_process_def Let_def split: if_splits option.splits)
  then have "k \<in> set ks \<and> Contains (ToLower e (Base e (UTF16ToString (buffer_after MAX_PATH written)))) k"
    by (rule range_keywords_Some)
  with p m show ?thesis by (simp add: executable_name_def)
qed

lemma foreground_process_False:
  "fst (foreground_process e ks h) = (k, False) \<Longrightarrow> k = []"
proof -
  assume a: "fst (foreground_process e ks h) = (k, False)"
  obtain pid err where p: "GetWindowThreadProcessId e h = (pid, err)"
    by (cases "GetWindowThreadProcessId e h")
  obtain n written where m: "GetModuleFileNameExW e (OpenProcess e pid) = (n, written)"
    by (cases "GetModuleFileNameExW e (OpenProcess e pid)")
  from a p m show ?thesis
    by (simp add: foreground_process_def Let_def split: if_splits option.splits)
qed

lemma getForegroundTarget_fst:
  "fst (getForegroundTarget e ks) =
     (if GetForegroundWindow e = 0 then ([], False)
      else case title_keyword e ks (foreground_title e) of
             Some k \<Rightarrow> (k, True)
           | None \<Rightarrow> fst (foreground_process e ks (GetForegroundWindow e)))"
  by (simp add: getForegroundTarget_def foreground_title_def Let_def split: prod.splits option.splits)

lemma getForegroundTarget_True:
  "fst (getForegroundTarget e ks) = (k, True) \<Longrightarrow>
   k \<in> set ks \<and> (Contains (ToLower e (foreground_title e)) k \<or> Contains (ToLower e (foreground_exe e)) k)"
proof -
  assume a: "fst (getForegroundTarget e ks) = (k, True)"
  then have nz: "GetForegroundWindow e \<noteq> 0"
    by (cases "GetForegroundWindow e = 0") (simp_all add: getForegroundTarget_fst)
  show ?thesis
  proof (cases "title_keyword e ks (foreground_title e)")
    case None
    with a nz have "fst (foreground_process e ks (GetForegroundWindow e)) = (k, True)"
      by (simp add: getForegroundTarget_fst)
    then show ?thesis
      using foreground_process_True [of e ks "GetForegroundWindow e" k]
      by (simp add: foreground_exe_def)
  next
    case (Some k')
    with a nz have "k' = k" by (simp add: getForegroundTarget_fst)
    with Some show ?thesis
      using title_keyword_Some [of e ks "foreground_title e" k] by simp
  qed
qed

lemma getForegroundTarget_False:
  "fst (getForegroundTarget e ks) = (k, False) \<Longrightarrow> k = []"
proof -
  assume a: "fst (getForegroundTarget e ks) = (k, False)"
  show ?thesis
  proof (cases "GetForegroundWindow e = 0")
    case True
    with a show ?thesis by (simp add: getForegroundTarget_fst)
  next
    case False
    show ?thesis
    proof (cases "title_keyword e ks (foreground_title e)")
      case None
      with a False have "fst (foreground_process e ks (GetForegroundWindow e)) = (k, False)"
        by (simp add: getForegroundTarget_fst)
      then show ?thesis by (rule foreground_process_False)
    next
      case (Some k')
      with a False show ?thesis by (simp add: getForegroundTarget_fst)
    qed
  qed
qed

lemma isProcessActive_fst:
  "fst (isProcessActive e ks) =
     (if snd (Processes e) \<noteq> None then ([], False)
      else case range_processes e (fst (Processes e)) ks of
             Some k \<Rightarrow> (k, True)
           | None \<Rightarrow> ([], False))"
  by (simp add: isProcessActive_def split: prod.splits option.splits)

lemma isProcessActive_trace: "snd (isProcessActive e ks) = [CallProcesses]"
  by (simp add: isProcessActive_def split: prod.splits option.splits)

lemma isProcessActive_True:
  "fst (isProcessActive e ks) = (k, True) \<Longrightarrow>
   k \<in> set ks \<and> (\<exists>p\<in>set (fst (Processes e)). Contains (ToLower e p) k)"
proof -
  assume a: "fst (isProcessActive e ks) = (k, True)"
  then have "range_processes e (fst (Processes e)) ks = Some k"
    by (simp add: isProcessActive_fst split: if_splits option.splits)
  then show ?thesis by (rule range_processes_Some)
qed

lemma isProcessActive_False:
  "fst (isProcessActive e ks) = (k, False) \<Longrightarrow> k = []"
  by (simp add: isProcessActive_fst split: if_splits option.splits)

lemma cb_fst:
  "fst (cb e ks h s) = (case window_keyword e ks h of Some k \<Rightarrow> (0, k) | None \<Rightarrow> (1, s))"
  by (simp add: cb_def window_keyword_def split: prod.splits option.splits)

lemma cb_snd:
  "snd (cb e ks h s) =
     CallIsWindowVisible h # (if IsWindowVisible e h = 0 then [] else snd (getWindowText e h))"
  by (simp add: cb_def split: prod.splits option.splits)

lemma window_keyword_Some:
  "window_keyword e ks h = Some k \<Longrightarrow>
   IsWindowVisible e h \<noteq> 0 \<and> k \<in> set ks \<and> fst (getWindowText e h) \<noteq> []
   \<and> Contains (ToLower e (fst (getWindowText e h))) k"
proof -
  assume a: "window_keyword e ks h = Some k"
  then have v: "IsWindowVisible e h \<noteq> 0"
    by (cases "IsWindowVisible e h = 0") (simp_all add: window_keyword_def)
  with a have "title_keyword e ks (fst (getWindowText e h)) = Some k"
    by (simp add: window_keyword_def)
  then have "k \<in> set ks \<and> fst (getWindowText e h) \<noteq> [] \<and> Contains (ToLower e (fst (getWindowText e h))) k"
    by (rule title_keyword_Some)
  with v show ?thesis by simp
qed

lemma enumerate_cb_Nil: "enumerate (cb e ks) [] s = ((False, s), [])"
  by simp

lemma enumerate_cb_hit:
  "window_keyword e ks h = Some k \<Longrightarrow>
   enumerate (cb e ks) (h # hs) s = ((True, k), snd (cb e ks h s))"
proof -
  assume "window_keyword e ks h = Some k"
  then have "fst (cb e ks h s) = (0, k)" by (simp add: cb_fst)
  then obtain t where "cb e ks h s = ((0, k), t)"
    by (cases "cb e ks h s") auto
  then show ?thesis by simp
qed

lemma enumerate_cb_miss:
  "window_keyword e ks h = None \<Longrightarrow>
   enumerate (cb e ks) (h # hs) s =
     (fst (enumerate (cb e ks) hs s), snd (cb e ks h s) @ snd (enumerate (cb e ks) hs s))"
proof -
  assume "window_keyword e ks h = None"
  then have "fst (cb e ks h s) = (1, s)" by (simp add: cb_fst)
  then obtain t where "cb e ks h s = ((1, s), t)"
    by (cases "cb e ks h s") auto
  then show ?thesis by (simp add: case_prod_unfold)
qed


lemma enumerate_cb_result:
  "fst (enumerate (cb e ks) ws s) = (st, s') \<Longrightarrow>
   (st \<and> (\<exists>h\<in>set ws. window_keyword e ks h = Some s'))
   \<or> (\<not> st \<and> s' = s \<and> (\<forall>h\<in>set ws. window_keyword e ks h = None))"
proof (induction ws)
  case Nil
  then show ?case by auto
next
  case (Cons h hs)
  show ?case
  proof (cases "window_keyword e ks h")
    case None
    with Cons.prems have "fst (enumerate (cb e ks) hs s) = (st, s')"
      by (simp add: enumerate_cb_miss del: enumerate.simps)
    from Cons.IH [OF this] None show ?thesis by auto
  next
    case (Some k)
    with Cons.prems have "st" and "s' = k"
      by (simp_all add: enumerate_cb_hit del: enumerate.simps)
    with Some show ?thesis by simp
  qed
qed

lemma enumerate_cb_none:
  "\<forall>h\<in>set ws. window_keyword e ks h = None \<Longrightarrow> fst (enumerate (cb e ks) ws s) = (False, s)"
  by (induction ws) (simp_all add: enumerate_cb_miss del: enumerate.simps(2))

lemma isWindowActive_fst:
  "fst (isWindowActive e ks) =
     (if snd (fst (enumerate (cb e ks) (fst (EnumWindows e)) [])) \<noteq> []
      then (snd (fst (enumerate (cb e ks) (fst (EnumWindows e)) [])), True)
      else ([], False))"
  by (simp add: isWindowActive_def Let_def split: prod.splits)

lemma isWindowActive_True:
  "fst (isWindowActive e ks) = (k, True) \<Longrightarrow>
   k \<in> set ks \<and> (\<exists>h\<in>set (fst (EnumWindows e)). IsWindowVisible e h \<noteq> 0
      \<and> Contains (ToLower e (fst (getWindowText e h))) k)"
proof -
  assume a: "fst (isWindowActive e ks) = (k, True)"
  obtain st s' where r: "fst (enumerate (cb e ks) (fst (EnumWindows e)) []) = (st, s')"
    by (cases "fst (enumerate (cb e ks) (fst (EnumWindows e)) [])")
  with a have k: "s' = k" and ne: "s' \<noteq> []"
    by (simp_all add: isWindowActive_fst split: if_splits)
  from enumerate_cb_result [OF r] ne
  obtain h where h: "h \<in> set (fst (EnumWindows e))" "window_keyword e ks h = Some s'"
    by auto
  from window_keyword_Some [OF h(2)] h(1) k show ?thesis by auto
qed

lemma isWindowActive_False:
  "fst (isWindowActive e ks) = (k, False) \<Longrightarrow> k = []"
  by (simp add: isWindowActive_fst split: if_splits)

lemma FirstActiveTarget_fst:
  "fst (FirstActiveTarget e targets) =
     (if snd (fst (getForegroundTarget e (map fst targets)))
      then (fst (fst (getForegroundTarget e (map fst targets))), True)
      else if snd (fst (isProcessActive e (map fst targets)))
      then (fst (fst (isProcessActive e (map fst targets))), True)
      else if snd (fst (isWindowActive e (map fst targets)))
      then (fst (fst (isWindowActive e (map fst targets))), True)
      else ([], False))"
  by (simp add: FirstActiveTarget_def Let_def split: prod.splits)

lemma FirstActiveTarget_True:
  "fst (FirstActiveTarget e targets) = (k, True) \<Longrightarrow>
   fst (getForegroundTarget e (map fst targets)) = (k, True)
   \<or> fst (isProcessActive e (map fst targets)) = (k, True)
   \<or> fst (isWindowActive e (map fst targets)) = (k, True)"
  by (simp add: FirstActiveTarget_fst prod_eq_iff split: if_splits)

lemma FirstActiveTarget_key:
  "fst (FirstActiveTarget e targets) = (k, True) \<Longrightarrow> k \<in> set (map fst targets)"
proof -
  assume "fst (FirstActiveTarget e targets) = (k, True)"
  then have "fst (getForegroundTarget e (map fst targets)) = (k, True)
     \<or> fst (isProcessActive e (map fst targets)) = (k, True)
     \<or> fst (isWindowActive e (map fst targets)) = (k, True)"
    by (rule FirstActiveTarget_True)
  then show "k \<in> set (map fst targets)"
    using getForegroundTarget_True [of e "map fst targets" k]
      isProcessActive_True [of e "map fst targets" k]
      isWindowActive_True [of e "map fst targets" k]
    by blast
qed

lemma FirstActiveTarget_False:
  "fst (FirstActiveTarget e targets) = (k, False) \<Longrightarrow> k = []"
  by (simp add: FirstActiveTarget_fst split: if_splits)

text \<open>
  Claim C10. Whatever the mapping and the environment, a keyword reported with
  \<open>found = true\<close> is a key of the mapping, and \<open>found = false\<close> comes with the empty
  string.
\<close>

theorem FirstActiveTarget_well_formed:
  "(fst (FirstActiveTarget e targets) = (k, True) \<longrightarrow> k \<in> set (map fst targets))
   \<and> (fst (FirstActiveTarget e targets) = (k, False) \<longrightarrow> k = [])"
  using FirstActiveTarget_key [of e targets k] FirstActiveTarget_False [of e targets k]
  by blast


section \<open>Runs on the concrete desktops\<close>

lemma desk_code:
  "FirstActiveTarget desk [(''chrome'', ''Browser''), (''code'', ''Editor'')] =
     ((''code'', True),
      [CallGetForegroundWindow, CallGetWindowTextLengthW 1, CallGetWindowTextW 1 32])"
  by (simp add: desk_defs matcher_defs)

lemma blank_chrome:
  "fst (FirstActiveTarget blank [(''chrome'', ''Browser'')]) = ([], False)"
  by (simp add: desk_defs matcher_defs)

theorem FirstActiveTarget_well_formed_witness:
  "fst (FirstActiveTarget desk [(''chrome'', ''Browser''), (''code'', ''Editor'')]) = (''code'', True)
   \<and> ''code'' \<in> set (map fst [(''chrome'', ''Browser''), (''code'', ''Editor'')])
   \<and> fst (FirstActiveTarget blank [(''chrome'', ''Browser'')]) = ([], False)"
proof -
  have r: "fst (FirstActiveTarget desk [(''chrome'', ''Browser''), (''code'', ''Editor'')]) = (''code'', True)"
    by (simp add: desk_code)
  with FirstActiveTarget_well_formed [of desk "[(''chrome'', ''Browser''), (''code'', ''Editor'')]" "''code''"]
  have "''code'' \<in> set (map fst [(''chrome'', ''Browser''), (''code'', ''Editor'')])"
    by blast
  with r blank_chrome show ?thesis by blast
qed

text \<open>
  Claim C7. With an empty mapping nothing is found, whatever the environment. Nothing is
  found either when there is no foreground window, no running process has an executable
  name whose lowered form contains a keyword, and no visible window has a title whose
  lowered form contains a keyword.
\<close>

theorem nothing_to_find:
  "fst (FirstActiveTarget e []) = ([], False)
   \<and> (GetForegroundWindow e = 0
      \<and> (\<forall>p\<in>set (fst (Processes e)). \<forall>k\<in>set (map fst targets). \<not> Contains (ToLower e p) k)
      \<and> (\<forall>h\<in>set (fst (EnumWindows e)). IsWindowVisible e h \<noteq> 0 \<longrightarrow>
            (\<forall>k\<in>set (map fst targets). \<not> Contains (ToLower e (fst (getWindowText e h))) k))
      \<longrightarrow> fst (FirstActiveTarget e targets) = ([], False))"
proof (intro conjI impI)
  have "\<not> snd (fst (FirstActiveTarget e []))"
  proof
    assume "snd (fst (FirstActiveTarget e []))"
    then have "fst (FirstActiveTarget e []) = (fst (fst (FirstActiveTarget e [])), True)"
      by (simp add: prod_eq_iff)
    from FirstActiveTarget_key [OF this] show False by simp
  qed
  then have "fst (FirstActiveTarget e []) = (fst (fst (FirstActiveTarget e [])), False)"
    by (simp add: prod_eq_iff)
  from this FirstActiveTarget_False [OF this]
  show "fst (FirstActiveTarget e []) = ([], False)" by simp
next
  let ?ks = "map fst targets"
  assume a: "GetForegroundWindow e = 0
      \<and> (\<forall>p\<in>set (fst (Processes e)). \<forall>k\<in>set ?ks. \<not> Contains (ToLower e p) k)
      \<and> (\<forall>h\<in>set (fst (EnumWindows e)). IsWindowVisible e h \<noteq> 0 \<longrightarrow>
            (\<forall>k\<in>set ?ks. \<not> Contains (ToLower e (fst (getWindowText e h))) k))"
  from a have fg: "fst (getForegroundTarget e ?ks) = ([], False)"
    by (simp add: getForegroundTarget_fst)
  from a have "range_processes e (fst (Processes e)) ?ks = None"
    by (simp only: range_processes_None) blast
  then have pr: "fst (isProcessActive e ?ks) = ([], False)"
    by (simp add: isProcessActive_fst)
  have "\<forall>h\<in>set (fst (EnumWindows e)). window_keyword e ?ks h = None"
  proof
    fix h assume h: "h \<in> set (fst (EnumWindows e))"
    show "window_keyword e ?ks h = None"
    proof (cases "IsWindowVisible e h = 0")
      case True
      then show ?thesis by (simp add: window_keyword_def)
    next
      case False
      with a h have "\<forall>k\<in>set ?ks. \<not> Contains (ToLower e (fst (getWindowText e h))) k"
        by blast
      then have "title_keyword e ?ks (fst (getWindowText e h)) = None"
        by (simp only: title_keyword_None) blast
      with False show ?thesis by (simp add: window_keyword_def)
    qed
  qed
  then have "fst (enumerate (cb e ?ks) (fst (EnumWindows e)) []) = (False, [])"
    by (rule enumerate_cb_none)
  then have wi: "fst (isWindowActive e ?ks) = ([], False)"
    by (simp add: isWindowActive_fst)
  from fg pr wi show "fst (FirstActiveTarget e targets) = ([], False)"
    by (simp add: FirstActiveTarget_fst)
qed

lemma desk_firefox_processes:
  "\<forall>p\<in>set (fst (Processes (desk\<lparr>GetForegroundWindow := 0\<rparr>))).
     \<forall>k\<in>set (map fst [(''firefox'', ''Browser'')]).
       \<not> Contains (ToLower (desk\<lparr>GetForegroundWindow := 0\<rparr>) p) k"
  by (simp add: desk_defs Contains_def HasPrefix_def)

lemma desk_firefox_windows:
  "\<forall>h\<in>set (fst (EnumWindows (desk\<lparr>GetForegroundWindow := 0\<rparr>))).
     IsWindowVisible (desk\<lparr>GetForegroundWindow := 0\<rparr>) h \<noteq> 0 \<longrightarrow>
       (\<forall>k\<in>set (map fst [(''firefox'', ''Browser'')]).
          \<not> Contains (ToLower (desk\<lparr>GetForegroundWindow := 0\<rparr>)
               (fst (getWindowText (desk\<lparr>GetForegroundWindow := 0\<rparr>) h))) k)"
  by (simp add: desk_defs matcher_defs)

theorem nothing_to_find_witness:
  "fst (FirstActiveTarget desk []) = ([], False)
   \<and> fst (FirstActiveTarget (desk\<lparr>GetForegroundWindow := 0\<rparr>) [(''firefox'', ''Browser'')]) = ([], False)"
proof -
  have fg: "GetForegroundWindow (desk\<lparr>GetForegroundWindow := 0\<rparr>) = 0"
    by simp
  from nothing_to_find [of desk "[(''firefox'', ''Browser'')]"]
  have "fst (FirstActiveTarget desk []) = ([], False)" by blast
  moreover
  from nothing_to_find [of "desk\<lparr>GetForegroundWindow := 0\<rparr>" "[(''firefox'', ''Browser'')]"]
    fg desk_firefox_processes desk_firefox_windows
  have "fst (FirstActiveTarget (desk\<lparr>GetForegroundWindow := 0\<rparr>) [(''firefox'', ''Browser'')]) = ([], False)"
    by blast
  ultimately show ?thesis by blast
qed


section \<open>The comparison of keywords\<close>

lemma visible_title_candidate:
  "h \<in> set (fst (EnumWindows e)) \<Longrightarrow> IsWindowVisible e h \<noteq> 0 \<Longrightarrow>
   fst (getWindowText e h) \<in> set (candidates e)"
  by (simp add: candidates_def visible_titles_def)

lemma FirstActiveTarget_candidate:
  "fst (FirstActiveTarget e targets) = (k, True) \<Longrightarrow>
   \<exists>c\<in>set (candidates e). Contains (ToLower e c) k"
proof -
  assume "fst (FirstActiveTarget e targets) = (k, True)"
  then consider
      (fg) "fst (getForegroundTarget e (map fst targets)) = (k, True)"
    | (pr) "fst (isProcessActive e (map fst targets)) = (k, True)"
    | (wi) "fst (isWindowActive e (map fst targets)) = (k, True)"
    using FirstActiveTarget_True by blast
  then show ?thesis
  proof cases
    case fg
    then have "Contains (ToLower e (foreground_title e)) k \<or> Contains (ToLower e (foreground_exe e)) k"
      using getForegroundTarget_True [of e "map fst targets" k] by simp
    then show ?thesis by (auto simp: candidates_def)
  next
    case pr
    then obtain p where "p \<in> set (fst (Processes e))" "Contains (ToLower e p) k"
      using isProcessActive_True [of e "map fst targets" k] by blast
    then show ?thesis by (auto simp: candidates_def)
  next
    case wi
    then obtain h where "h \<in> set (fst (EnumWindows e))" "IsWindowVisible e h \<noteq> 0"
        "Contains (ToLower e (fst (getWindowText e h))) k"
      using isWindowActive_True [of e "map fst targets" k] by blast
    then show ?thesis using visible_title_candidate by blast
  qed
qed

lemma title_keyword_found:
  "title_keyword e ks title \<noteq> None
     \<longleftrightarrow> title \<noteq> [] \<and> (\<exists>k\<in>set ks. Contains (ToLower e title) k)"
  by (simp add: title_keyword_None)

lemma title_keyword_single:
  "title_keyword e [keyword] title = Some keyword
     \<longleftrightarrow> title \<noteq> [] \<and> Contains (ToLower e title) keyword"
  by (simp add: title_keyword_def)

lemma foreground_process_fst:
  "fst (foreground_process e ks h) =
     (if executable_found e h
      then (case range_keywords (ToLower e (executable_name e h)) ks of
              Some k \<Rightarrow> (k, True)
            | None \<Rightarrow> ([], False))
      else ([], False))"
  by (auto simp: foreground_process_def executable_found_def executable_name_def Let_def
      split: prod.splits option.splits)

lemma foreground_process_found:
  "snd (fst (foreground_process e ks h))
     \<longleftrightarrow> executable_found e h \<and> (\<exists>k\<in>set ks. Contains (ToLower e (executable_name e h)) k)"
proof (cases "range_keywords (ToLower e (executable_name e h)) ks")
  case None
  then have "\<forall>k\<in>set ks. \<not> Contains (ToLower e (executable_name e h)) k"
    by (simp add: range_keywords_None)
  with None show ?thesis by (simp add: foreground_process_fst)
next
  case (Some k)
  then have "k \<in> set ks \<and> Contains (ToLower e (executable_name e h)) k"
    by (rule range_keywords_Some)
  then have "\<exists>k\<in>set ks. Contains (ToLower e (executable_name e h)) k" by blast
  with Some show ?thesis by (simp add: foreground_process_fst)
qed

lemma getForegroundTarget_found:
  "snd (fst (getForegroundTarget e ks))
     \<longleftrightarrow> GetForegroundWindow e \<noteq> 0
         \<and> (foreground_title e \<noteq> [] \<and> (\<exists>k\<in>set ks. Contains (ToLower e (foreground_title e)) k)
            \<or> executable_found e (GetForegroundWindow e)
               \<and> (\<exists>k\<in>set ks. Contains (ToLower e (foreground_exe e)) k))"
proof (cases "GetForegroundWindow e = 0")
  case True
  then show ?thesis by (simp add: getForegroundTarget_fst)
next
  case nz: False
  show ?thesis
  proof (cases "title_keyword e ks (foreground_title e)")
    case None
    then have "\<not> (foreground_title e \<noteq> [] \<and> (\<exists>k\<in>set ks. Contains (ToLower e (foreground_title e)) k))"
      using title_keyword_found [of e ks "foreground_title e"] by simp
    moreover from nz None have "snd (fst (getForegroundTarget e ks))
        \<longleftrightarrow> snd (fst (foreground_process e ks (GetForegroundWindow e)))"
      by (simp add: getForegroundTarget_fst)
    ultimately show ?thesis
      using nz foreground_process_found [of e ks "GetForegroundWindow e"]
      unfolding foreground_exe_def by blast
  next
    case (Some k)
    then have "foreground_title e \<noteq> [] \<and> (\<exists>k\<in>set ks. Contains (ToLower e (foreground_title e)) k)"
      using title_keyword_found [of e ks "foreground_title e"] by simp
    moreover from nz Some have "snd (fst (getForegroundTarget e ks))"
      by (simp add: getForegroundTarget_fst)
    ultimately show ?thesis
      using nz by blast
  qed
qed

lemma isProcessActive_found:
  "snd (fst (isProcessActive e ks))
     \<longleftrightarrow> snd (Processes e) = None
         \<and> (\<exists>p\<in>set (fst (Processes e)). \<exists>k\<in>set ks. Contains (ToLower e p) k)"
proof (cases "range_processes e (fst (Processes e)) ks")
  case None
  then have "\<forall>p\<in>set (fst (Processes e)). \<forall>k\<in>set ks. \<not> Contains (ToLower e p) k"
    by (simp only: range_processes_None)
  with None show ?thesis by (simp add: isProcessActive_fst)
next
  case (Some k)
  then have "k \<in> set ks \<and> (\<exists>p\<in>set (fst (Processes e)). Contains (ToLower e p) k)"
    by (rule range_processes_Some)
  then have "\<exists>p\<in>set (fst (Processes e)). \<exists>k\<in>set ks. Contains (ToLower e p) k" by blast
  with Some show ?thesis by (simp add: isProcessActive_fst)
qed

lemma window_keyword_found:
  "window_keyword e ks h \<noteq> None
     \<longleftrightarrow> IsWindowVisible e h \<noteq> 0 \<and> fst (getWindowText e h) \<noteq> []
         \<and> (\<exists>k\<in>set ks. Contains (ToLower e (fst (getWindowText e h))) k)"
  by (cases "IsWindowVisible e h = 0")
    (simp_all add: window_keyword_def title_keyword_found del: not_None_eq)

lemma cb_stops:
  "fst (fst (cb e ks h s)) = 0
     \<longleftrightarrow> IsWindowVisible e h \<noteq> 0 \<and> fst (getWindowText e h) \<noteq> []
         \<and> (\<exists>k\<in>set ks. Contains (ToLower e (fst (getWindowText e h))) k)"
proof (cases "window_keyword e ks h")
  case None
  with window_keyword_found [of e ks h] show ?thesis by (simp add: cb_fst)
next
  case (Some k)
  with window_keyword_found [of e ks h] show ?thesis by (simp add: cb_fst)
qed

lemma isWindowActive_found:
  assumes "[] \<notin> set ks"
  shows "snd (fst (isWindowActive e ks))
     \<longleftrightarrow> (\<exists>h\<in>set (fst (EnumWindows e)). IsWindowVisible e h \<noteq> 0
            \<and> fst (getWindowText e h) \<noteq> []
            \<and> (\<exists>k\<in>set ks. Contains (ToLower e (fst (getWindowText e h))) k))"
proof -
  obtain st s' where r: "fst (enumerate (cb e ks) (fst (EnumWindows e)) []) = (st, s')"
    by (cases "fst (enumerate (cb e ks) (fst (EnumWindows e)) [])")
  from enumerate_cb_result [OF r] consider
      (hit) h where "h \<in> set (fst (EnumWindows e))" "window_keyword e ks h = Some s'"
    | (miss) "s' = []" "\<forall>h\<in>set (fst (EnumWindows e)). window_keyword e ks h = None"
    by blast
  then show ?thesis
  proof cases
    case hit
    from window_keyword_Some [OF hit(2)]
    have w: "IsWindowVisible e h \<noteq> 0" "s' \<in> set ks" "fst (getWindowText e h) \<noteq> []"
        "Contains (ToLower e (fst (getWindowText e h))) s'"
      by simp_all
    have "s' \<noteq> []"
    proof
      assume "s' = []"
      with w(2) have "[] \<in> set ks" by simp
      with assms show False by simp
    qed
    with r have "snd (fst (isWindowActive e ks))"
      by (simp add: isWindowActive_fst)
    moreover from hit(1) w have "\<exists>h\<in>set (fst (EnumWindows e)). IsWindowVisible e h \<noteq> 0
        \<and> fst (getWindowText e h) \<noteq> []
        \<and> (\<exists>k\<in>set ks. Contains (ToLower e (fst (getWindowText e h))) k)"
      by blast
    ultimately show ?thesis by simp
  next
    case miss
    from miss(1) r have "\<not> snd (fst (isWindowActive e ks))"
      by (simp add: isWindowActive_fst)
    moreover have "\<not> (\<exists>h\<in>set (fst (EnumWindows e)). IsWindowVisible e h \<noteq> 0
        \<and> fst (getWindowText e h) \<noteq> []
        \<and> (\<exists>k\<in>set ks. Contains (ToLower e (fst (getWindowText e h))) k))"
    proof
      assume "\<exists>h\<in>set (fst (EnumWindows e)). IsWindowVisible e h \<noteq> 0
        \<and> fst (getWindowText e h) \<noteq> []
        \<and> (\<exists>k\<in>set ks. Contains (ToLower e (fst (getWindowText e h))) k)"
      then obtain h where h: "h \<in> set (fst (EnumWindows e))"
          and "IsWindowVisible e h \<noteq> 0 \<and> fst (getWindowText e h) \<noteq> []
            \<and> (\<exists>k\<in>set ks. Contains (ToLower e (fst (getWindowText e h))) k)"
        by blast
      then have f: "window_keyword e ks h \<noteq> None"
        using window_keyword_found [of e ks h] by blast
      from miss(2) h have "window_keyword e ks h = None"
        by (rule bspec)
      with f show False by simp
    qed
    ultimately show ?thesis by simp
  qed
qed

lemma FirstActiveTarget_found:
  "snd (fst (FirstActiveTarget e targets))
     \<longleftrightarrow> snd (fst (getForegroundTarget e (map fst targets)))
         \<or> snd (fst (isProcessActive e (map fst targets)))
         \<or> snd (fst (isWindowActive e (map fst targets)))"
  by (simp add: FirstActiveTarget_fst)

text \<open>
  Claim C4, as the code has it. The comparison that every strategy makes is
  \<open>strings.Contains\<close> on the lowered title or executable name, which holds exactly when
  the keyword occurs in the lowered string as a contiguous block, and each loop over the
  keywords returns the first keyword, in the order of the loop, for which it holds. A
  title is compared only when it is not empty: a keyword matches a title exactly when
  the title is not empty and its lowered form contains the keyword. Accordingly
  \<^item> the first strategy finds something exactly when there is a foreground window and
    either its title is not empty and contains a keyword, or the executable of its
    process was found and its file name contains a keyword;
  \<^item> the second strategy finds something exactly when the processes could be listed
    and the executable name of one of them contains a keyword;
  \<^item> the callback of the third strategy stops at a window exactly when the window is
    visible, its title is not empty and contains a keyword; and when the empty string
    is not a keyword, the third strategy finds something exactly when there is such a
    window in the enumeration;
  \<^item> \<open>FirstActiveTarget\<close> finds something exactly when one of the strategies does;
  \<^item> a keyword that \<open>FirstActiveTarget\<close> reports occurs in the lowered form of one of
    these titles or names.
\<close>

theorem keyword_comparison:
  "(Contains (ToLower e candidate) keyword
      \<longleftrightarrow> (\<exists>pre post. ToLower e candidate = pre @ keyword @ post))
   \<and> range_keywords (ToLower e candidate) ks =
       find (\<lambda>k. \<exists>pre post. ToLower e candidate = pre @ k @ post) ks
   \<and> (title_keyword e [keyword] title = Some keyword
        \<longleftrightarrow> title \<noteq> [] \<and> Contains (ToLower e title) keyword)
   \<and> (snd (fst (getForegroundTarget e ks))
        \<longleftrightarrow> GetForegroundWindow e \<noteq> 0
            \<and> (foreground_title e \<noteq> []
                 \<and> (\<exists>k\<in>set ks. Contains (ToLower e (foreground_title e)) k)
               \<or> executable_found e (GetForegroundWindow e)
                 \<and> (\<exists>k\<in>set ks. Contains (ToLower e (foreground_exe e)) k)))
   \<and> (snd (fst (isProcessActive e ks))
        \<longleftrightarrow> snd (Processes e) = None
            \<and> (\<exists>p\<in>set (fst (Processes e)). \<exists>k\<in>set ks. Contains (ToLower e p) k))
   \<and> (fst (fst (cb e ks h s)) = 0
        \<longleftrightarrow> IsWindowVisible e h \<noteq> 0 \<and> fst (getWindowText e h) \<noteq> []
            \<and> (\<exists>k\<in>set ks. Contains (ToLower e (fst (getWindowText e h))) k))
   \<and> ([] \<notin> set ks \<longrightarrow>
        (snd (fst (isWindowActive e ks))
          \<longleftrightarrow> (\<exists>h\<in>set (fst (EnumWindows e)). IsWindowVisible e h \<noteq> 0
                 \<and> fst (getWindowText e h) \<noteq> []
                 \<and> (\<exists>k\<in>set ks. Contains (ToLower e (fst (getWindowText e h))) k))))
   \<and> (snd (fst (FirstActiveTarget e targets))
        \<longleftrightarrow> snd (fst (getForegroundTarget e (map fst targets)))
            \<or> snd (fst (isProcessActive e (map fst targets)))
            \<or> snd (fst (isWindowActive e (map fst targets))))
   \<and> (fst (FirstActiveTarget e targets) = (k, True) \<longrightarrow>
        (\<exists>c\<in>set (candidates e). \<exists>pre post. ToLower e c = pre @ k @ post))"
proof (intro conjI impI)
  show "Contains (ToLower e candidate) keyword
      \<longleftrightarrow> (\<exists>pre post. ToLower e candidate = pre @ keyword @ post)"
    by (rule Contains_iff)
next
  have "Contains (ToLower e candidate) = (\<lambda>k. \<exists>pre post. ToLower e candidate = pre @ k @ post)"
    by (rule ext) (rule Contains_iff)
  then show "range_keywords (ToLower e candidate) ks =
       find (\<lambda>k. \<exists>pre post. ToLower e candidate = pre @ k @ post) ks"
    by (simp add: range_keywords_find)
next
  show "title_keyword e [keyword] title = Some keyword
        \<longleftrightarrow> title \<noteq> [] \<and> Contains (ToLower e title) keyword"
    by (rule title_keyword_single)
next
  show "snd (fst (getForegroundTarget e ks))
        \<longleftrightarrow> GetForegroundWindow e \<noteq> 0
            \<and> (foreground_title e \<noteq> []
                 \<and> (\<exists>k\<in>set ks. Contains (ToLower e (foreground_title e)) k)
               \<or> executable_found e (GetForegroundWindow e)
                 \<and> (\<exists>k\<in>set ks. Contains (ToLower e (foreground_exe e)) k))"
    by (rule getForegroundTarget_found)
next
  show "snd (fst (isProcessActive e ks))
        \<longleftrightarrow> snd (Processes e) = None
            \<and> (\<exists>p\<in>set (fst (Processes e)). \<exists>k\<in>set ks. Contains (ToLower e p) k)"
    by (rule isProcessActive_found)
next
  show "fst (fst (cb e ks h s)) = 0
        \<longleftrightarrow> IsWindowVisible e h \<noteq> 0 \<and> fst (getWindowText e h) \<noteq> []
            \<and> (\<exists>k\<in>set ks. Contains (ToLower e (fst (getWindowText e h))) k)"
    by (rule cb_stops)
next
  assume "[] \<notin> set ks"
  then show "snd (fst (isWindowActive e ks))
          \<longleftrightarrow> (\<exists>h\<in>set (fst (EnumWindows e)). IsWindowVisible e h \<noteq> 0
                 \<and> fst (getWindowText e h) \<noteq> []
                 \<and> (\<exists>k\<in>set ks. Contains (ToLower e (fst (getWindowText e h))) k))"
    by (rule isWindowActive_found)
next
  show "snd (fst (FirstActiveTarget e targets))
        \<longleftrightarrow> snd (fst (getForegroundTarget e (map fst targets)))
            \<or> snd (fst (isProcessActive e (map fst targets)))
            \<or> snd (fst (isWindowActive e (map fst targets)))"
    by (rule FirstActiveTarget_found)
next
  assume "fst (FirstActiveTarget e targets) = (k, True)"
  then obtain c where "c \<in> set (candidates e)" "Contains (ToLower e c) k"
    using FirstActiveTarget_candidate by blast
  then show "\<exists>c\<in>set (candidates e). \<exists>pre post. ToLower e c = pre @ k @ post"
    using Contains_iff by blast
qed

lemma desk_title_code:
  "Contains (ToLower desk ''index.html - Visual Studio Code'') ''code''"
  by (simp add: desk_defs Contains_def HasPrefix_def)

lemma desk_chrome_running:
  "snd (Processes desk) = None
   \<and> (\<exists>p\<in>set (fst (Processes desk)). \<exists>k\<in>set [''chrome'']. Contains (ToLower desk p) k)"
  by (simp add: desk_defs Contains_def HasPrefix_def)

lemma desk_spotify_window:
  "IsWindowVisible desk 3 \<noteq> 0 \<and> fst (getWindowText desk 3) \<noteq> []
   \<and> (\<exists>k\<in>set [''spotify'']. Contains (ToLower desk (fst (getWindowText desk 3))) k)"
  by (simp add: desk_defs matcher_defs)

text \<open>
  On the concrete desktop "code" occurs in the lowered title of the foreground window and
  is reported, chrome.exe is running, and the callback stops at window 3 for "spotify".
\<close>

theorem keyword_comparison_witness:
  "(\<exists>pre post. ToLower desk ''index.html - Visual Studio Code'' = pre @ ''code'' @ post)
   \<and> (\<exists>c\<in>set (candidates desk). \<exists>pre post. ToLower desk c = pre @ ''code'' @ post)
   \<and> snd (fst (isProcessActive desk [''chrome'']))
   \<and> fst (fst (cb desk [''spotify''] 3 [])) = 0
   \<and> snd (fst (isWindowActive desk [''spotify'']))"
proof -
  have r: "fst (FirstActiveTarget desk [(''chrome'', ''Browser''), (''code'', ''Editor'')]) = (''code'', True)"
    by (simp add: desk_code)
  note t = keyword_comparison [where e = desk and candidate = "''index.html - Visual Studio Code''"
      and keyword = "''code''" and targets = "[(''chrome'', ''Browser''), (''code'', ''Editor'')]"
      and k = "''code''"]
  from t [THEN conjunct1] desk_title_code
  have 1: "\<exists>pre post. ToLower desk ''index.html - Visual Studio Code'' = pre @ ''code'' @ post"
    by (rule iffD1)
  from t [THEN conjunct2, THEN conjunct2, THEN conjunct2, THEN conjunct2, THEN conjunct2,
      THEN conjunct2, THEN conjunct2, THEN conjunct2] r
  have 2: "\<exists>c\<in>set (candidates desk). \<exists>pre post. ToLower desk c = pre @ ''code'' @ post"
    by (rule mp)
  from keyword_comparison [where e = desk and ks = "[''chrome'']", THEN conjunct2,
      THEN conjunct2, THEN conjunct2, THEN conjunct2, THEN conjunct1] desk_chrome_running
  have 3: "snd (fst (isProcessActive desk [''chrome'']))"
    by (rule iffD2)
  from keyword_comparison [where e = desk and ks = "[''spotify'']" and h = 3 and s = "[]",
      THEN conjunct2, THEN conjunct2, THEN conjunct2, THEN conjunct2, THEN conjunct2,
      THEN conjunct1] desk_spotify_window
  have 4: "fst (fst (cb desk [''spotify''] 3 [])) = 0"
    by (rule iffD2)
  have ne: "[] \<notin> set [''spotify'']" by simp
  have m: "3 \<in> set (fst (EnumWindows desk))" by (simp add: desk_def)
  from m desk_spotify_window
  have ex: "\<exists>h\<in>set (fst (EnumWindows desk)). IsWindowVisible desk h \<noteq> 0
      \<and> fst (getWindowText desk h) \<noteq> []
      \<and> (\<exists>k\<in>set [''spotify'']. Contains (ToLower desk (fst (getWindowText desk h))) k)"
    by (rule rev_bexI)
  note w = keyword_comparison [where e = desk and ks = "[''spotify'']", THEN conjunct2,
      THEN conjunct2, THEN conjunct2, THEN conjunct2, THEN conjunct2, THEN conjunct2,
      THEN conjunct1]
  from w ne have "snd (fst (isWindowActive desk [''spotify'']))
      \<longleftrightarrow> (\<exists>h\<in>set (fst (EnumWindows desk)). IsWindowVisible desk h \<noteq> 0
            \<and> fst (getWindowText desk h) \<noteq> []
            \<and> (\<exists>k\<in>set [''spotify'']. Contains (ToLower desk (fst (getWindowText desk h))) k))"
    by (rule mp)
  from this ex have 5: "snd (fst (isWindowActive desk [''spotify'']))"
    by (rule iffD2)
  from 1 2 3 4 5 show ?thesis by (intro conjI)
qed

text \<open>
  Claim C4, as stated, fails for an empty title: the lowered title of the foreground
  window contains the empty keyword as a contiguous block, yet the title is not compared
  and the first strategy finds nothing.
\<close>

theorem keyword_comparison_counterexample:
  "foreground_title blank = []
   \<and> Contains (ToLower blank (foreground_title blank)) []
   \<and> title_keyword blank [[]] (foreground_title blank) = None
   \<and> fst (getForegroundTarget blank [[]]) = ([], False)"
  by (simp add: foreground_title_def desk_defs matcher_defs)

section \<open>The order of the strategies\<close>

lemma getForegroundTarget_title:
  "GetForegroundWindow e \<noteq> 0 \<Longrightarrow> title_keyword e ks (foreground_title e) = Some k \<Longrightarrow>
   getForegroundTarget e ks =
     ((k, True), CallGetForegroundWindow # snd (getWindowText e (GetForegroundWindow e)))"
  by (auto simp: getForegroundTarget_def foreground_title_def Let_def split: prod.splits)

lemma getWindowText_calls:
  "c \<in> set (snd (getWindowText e h)) \<Longrightarrow>
   c = CallGetWindowTextLengthW h \<or> c = CallGetWindowTextW h (queried_length e h + 1)"
  by (simp add: getWindowText_trace split: if_splits)

lemma foreground_process_snd:
  "snd (foreground_process e ks h) =
     (if snd (GetWindowThreadProcessId e h) \<noteq> None \<or> fst (GetWindowThreadProcessId e h) = 0
      then [CallGetWindowThreadProcessId h]
      else if OpenProcess e (fst (GetWindowThreadProcessId e h)) = 0
      then [CallGetWindowThreadProcessId h, CallOpenProcess (fst (GetWindowThreadProcessId e h)) 0]
      else [CallGetWindowThreadProcessId h,
            CallOpenProcess (fst (GetWindowThreadProcessId e h))
              (OpenProcess e (fst (GetWindowThreadProcessId e h))),
            CallGetModuleFileNameExW (OpenProcess e (fst (GetWindowThreadProcessId e h)))]
           @ deferred_close e (OpenProcess e (fst (GetWindowThreadProcessId e h))))"
  by (simp add: foreground_process_def Let_def split: prod.splits option.splits)

lemma getForegroundTarget_snd:
  "snd (getForegroundTarget e ks) =
     (if GetForegroundWindow e = 0 then [CallGetForegroundWindow]
      else CallGetForegroundWindow # snd (getWindowText e (GetForegroundWindow e)) @
        (case title_keyword e ks (foreground_title e) of
           Some k \<Rightarrow> []
         | None \<Rightarrow> snd (foreground_process e ks (GetForegroundWindow e))))"
  by (simp add: getForegroundTarget_def foreground_title_def Let_def split: prod.splits option.splits)

lemma FirstActiveTarget_snd:
  "snd (FirstActiveTarget e targets) =
     snd (getForegroundTarget e (map fst targets)) @
     (if snd (fst (getForegroundTarget e (map fst targets))) then []
      else snd (isProcessActive e (map fst targets)) @
        (if snd (fst (isProcessActive e (map fst targets))) then []
         else snd (isWindowActive e (map fst targets))))"
  by (simp add: FirstActiveTarget_def Let_def split: prod.splits)

lemma getForegroundTarget_calls:
  "CallProcesses \<notin> set (snd (getForegroundTarget e ks))
   \<and> CallEnumWindows \<notin> set (snd (getForegroundTarget e ks))"
proof -
  have g: "CallProcesses \<notin> set (snd (getWindowText e (GetForegroundWindow e)))
      \<and> CallEnumWindows \<notin> set (snd (getWindowText e (GetForegroundWindow e)))"
    by (simp add: getWindowText_trace)
  have p: "CallProcesses \<notin> set (snd (foreground_process e ks (GetForegroundWindow e)))
      \<and> CallEnumWindows \<notin> set (snd (foreground_process e ks (GetForegroundWindow e)))"
    by (simp add: foreground_process_snd deferred_close_def)
  from g p show ?thesis
    by (simp add: getForegroundTarget_snd split: option.splits)
qed

lemma isWindowActive_enumerates: "CallEnumWindows \<in> set (snd (isWindowActive e ks))"
  by (simp add: isWindowActive_def Let_def split: prod.splits)

lemma FirstActiveTarget_order:
  "FirstActiveTarget e targets =
     (if snd (fst (getForegroundTarget e (map fst targets)))
      then getForegroundTarget e (map fst targets)
      else if snd (fst (isProcessActive e (map fst targets)))
      then (fst (isProcessActive e (map fst targets)),
            snd (getForegroundTarget e (map fst targets)) @ snd (isProcessActive e (map fst targets)))
      else (fst (isWindowActive e (map fst targets)),
            snd (getForegroundTarget e (map fst targets)) @ snd (isProcessActive e (map fst targets))
              @ snd (isWindowActive e (map fst targets))))"
proof -
  have w: "\<not> snd (fst (isWindowActive e (map fst targets))) \<Longrightarrow>
      fst (isWindowActive e (map fst targets)) = ([], False)"
  proof -
    assume "\<not> snd (fst (isWindowActive e (map fst targets)))"
    then have "fst (isWindowActive e (map fst targets)) =
        (fst (fst (isWindowActive e (map fst targets))), False)"
      by (simp add: prod_eq_iff)
    from this isWindowActive_False [OF this] show ?thesis by simp
  qed
  show ?thesis
    using w by (auto simp: prod_eq_iff FirstActiveTarget_fst FirstActiveTarget_snd)
qed

lemma FirstActiveTarget_asks_processes:
  "CallProcesses \<in> set (snd (FirstActiveTarget e targets))
     \<longleftrightarrow> \<not> snd (fst (getForegroundTarget e (map fst targets)))"
  using getForegroundTarget_calls [of e "map fst targets"]
  by (simp add: FirstActiveTarget_snd isProcessActive_trace)

lemma FirstActiveTarget_asks_windows:
  "CallEnumWindows \<in> set (snd (FirstActiveTarget e targets))
     \<longleftrightarrow> \<not> snd (fst (getForegroundTarget e (map fst targets)))
         \<and> \<not> snd (fst (isProcessActive e (map fst targets)))"
  using getForegroundTarget_calls [of e "map fst targets"]
    isWindowActive_enumerates [of e "map fst targets"]
  by (simp add: FirstActiveTarget_snd isProcessActive_trace)

lemma foreground_title_found:
  assumes "GetForegroundWindow e \<noteq> 0"
    and "foreground_title e \<noteq> []"
    and "k \<in> set (map fst targets)"
    and "Contains (ToLower e (foreground_title e)) k"
    and "\<forall>k'\<in>set (map fst targets). k' \<noteq> k \<longrightarrow> \<not> Contains (ToLower e (foreground_title e)) k'"
  shows "FirstActiveTarget e targets =
           ((k, True), CallGetForegroundWindow # snd (getWindowText e (GetForegroundWindow e)))"
proof -
  from assms(3-5) have "range_keywords (ToLower e (foreground_title e)) (map fst targets) = Some k"
    by (rule range_keywords_unique)
  with assms(2) have "title_keyword e (map fst targets) (foreground_title e) = Some k"
    by (simp add: title_keyword_def)
  with assms(1) have fg: "getForegroundTarget e (map fst targets) =
      ((k, True), CallGetForegroundWindow # snd (getWindowText e (GetForegroundWindow e)))"
    by (rule getForegroundTarget_title)
  then show ?thesis
    by (simp add: FirstActiveTarget_def)
qed

text \<open>
  Claim C1, as the code has it. \<open>FirstActiveTarget\<close> gives the result of the foreground
  strategy when that finds something; otherwise the result of the process-list strategy
  when that finds something; otherwise the result of the visible-window strategy; and its
  calls are those of the strategies it ran, in this order. The list of processes is asked
  for exactly when the foreground strategy found nothing, and the windows are enumerated
  exactly when neither of the first two strategies found anything. When there is a
  foreground window whose title is not empty, and exactly one keyword of the mapping
  occurs in the lowered title, then \<open>FirstActiveTarget\<close> returns that keyword with
  \<open>found = true\<close>, and the only calls it makes are the query for the foreground window and
  the retrieval of its title: neither the list of processes nor the enumeration of
  windows is asked for, whatever they would have answered.
\<close>

theorem foreground_title_wins:
  "FirstActiveTarget e targets =
     (if snd (fst (getForegroundTarget e (map fst targets)))
      then getForegroundTarget e (map fst targets)
      else if snd (fst (isProcessActive e (map fst targets)))
      then (fst (isProcessActive e (map fst targets)),
            snd (getForegroundTarget e (map fst targets)) @ snd (isProcessActive e (map fst targets)))
      else (fst (isWindowActive e (map fst targets)),
            snd (getForegroundTarget e (map fst targets)) @ snd (isProcessActive e (map fst targets))
              @ snd (isWindowActive e (map fst targets))))
   \<and> (CallProcesses \<in> set (snd (FirstActiveTarget e targets))
        \<longleftrightarrow> \<not> snd (fst (getForegroundTarget e (map fst targets))))
   \<and> (CallEnumWindows \<in> set (snd (FirstActiveTarget e targets))
        \<longleftrightarrow> \<not> snd (fst (getForegroundTarget e (map fst targets)))
            \<and> \<not> snd (fst (isProcessActive e (map fst targets))))
   \<and> (GetForegroundWindow e \<noteq> 0
        \<and> foreground_title e \<noteq> []
        \<and> k \<in> set (map fst targets)
        \<and> Contains (ToLower e (foreground_title e)) k
        \<and> (\<forall>k'\<in>set (map fst targets). k' \<noteq> k \<longrightarrow> \<not> Contains (ToLower e (foreground_title e)) k')
       \<longrightarrow> FirstActiveTarget e targets =
             ((k, True), CallGetForegroundWindow # snd (getWindowText e (GetForegroundWindow e)))
           \<and> CallProcesses \<notin> set (snd (FirstActiveTarget e targets))
           \<and> CallEnumWindows \<notin> set (snd (FirstActiveTarget e targets)))"
proof (intro conjI impI)
  show "FirstActiveTarget e targets =
     (if snd (fst (getForegroundTarget e (map fst targets)))
      then getForegroundTarget e (map fst targets)
      else if snd (fst (isProcessActive e (map fst targets)))
      then (fst (isProcessActive e (map fst targets)),
            snd (getForegroundTarget e (map fst targets)) @ snd (isProcessActive e (map fst targets)))
      else (fst (isWindowActive e (map fst targets)),
            snd (getForegroundTarget e (map fst targets)) @ snd (isProcessActive e (map fst targets))
              @ snd (isWindowActive e (map fst targets))))"
    by (rule FirstActiveTarget_order)
next
  show "CallProcesses \<in> set (snd (FirstActiveTarget e targets))
        \<longleftrightarrow> \<not> snd (fst (getForegroundTarget e (map fst targets)))"
    by (rule FirstActiveTarget_asks_processes)
next
  show "CallEnumWindows \<in> set (snd (FirstActiveTarget e targets))
        \<longleftrightarrow> \<not> snd (fst (getForegroundTarget e (map fst targets)))
            \<and> \<not> snd (fst (isProcessActive e (map fst targets)))"
    by (rule FirstActiveTarget_asks_windows)
next
  assume a: "GetForegroundWindow e \<noteq> 0
        \<and> foreground_title e \<noteq> []
        \<and> k \<in> set (map fst targets)
        \<and> Contains (ToLower e (foreground_title e)) k
        \<and> (\<forall>k'\<in>set (map fst targets). k' \<noteq> k \<longrightarrow> \<not> Contains (ToLower e (foreground_title e)) k')"
  then have r: "FirstActiveTarget e targets =
      ((k, True), CallGetForegroundWindow # snd (getWindowText e (GetForegroundWindow e)))"
    by (intro foreground_title_found) simp_all
  then show "FirstActiveTarget e targets =
      ((k, True), CallGetForegroundWindow # snd (getWindowText e (GetForegroundWindow e)))" .
  from r show "CallProcesses \<notin> set (snd (FirstActiveTarget e targets))"
    by (simp add: getWindowText_trace)
  from r show "CallEnumWindows \<notin> set (snd (FirstActiveTarget e targets))"
    by (simp add: getWindowText_trace)
qed

lemma desk_foreground_title: "foreground_title desk = ''index.html - Visual Studio Code''"
  by (simp add: foreground_title_def desk_defs matcher_defs)

lemma desk_title_chrome:
  "\<not> Contains (ToLower desk ''index.html - Visual Studio Code'') ''chrome''"
  by (simp add: desk_defs Contains_def HasPrefix_def)

lemma desk_process_chrome:
  "fst (isProcessActive desk [''chrome'', ''code'']) = (''chrome'', True)"
  by (simp add: desk_defs matcher_defs)

lemma desk_background:
  "\<not> snd (fst (getForegroundTarget (desk\<lparr>GetForegroundWindow := 0\<rparr>)
       (map fst [(''spotify'', ''Music''), (''chrome'', ''Browser'')])))"
  "fst (isProcessActive (desk\<lparr>GetForegroundWindow := 0\<rparr>)
       (map fst [(''spotify'', ''Music''), (''chrome'', ''Browser'')])) = (''chrome'', True)"
  "fst (isWindowActive (desk\<lparr>GetForegroundWindow := 0\<rparr>)
       (map fst [(''spotify'', ''Music''), (''chrome'', ''Browser'')])) = (''spotify'', True)"
  by (simp_all add: desk_defs matcher_defs)

text \<open>
  On the concrete desktop the title of the foreground window contains "code" only, and
  the list of processes, had it been asked for, would have given "chrome". Without a
  foreground window the running chrome.exe decides, although the visible window 3 would
  have given "spotify", and the windows are not enumerated.
\<close>

theorem foreground_title_wins_witness:
  "FirstActiveTarget desk [(''chrome'', ''Browser''), (''code'', ''Editor'')] =
     ((''code'', True), CallGetForegroundWindow # snd (getWindowText desk (GetForegroundWindow desk)))
   \<and> CallProcesses \<notin> set (snd (FirstActiveTarget desk [(''chrome'', ''Browser''), (''code'', ''Editor'')]))
   \<and> CallEnumWindows \<notin> set (snd (FirstActiveTarget desk [(''chrome'', ''Browser''), (''code'', ''Editor'')]))
   \<and> fst (isProcessActive desk [''chrome'', ''code'']) = (''chrome'', True)
   \<and> fst (FirstActiveTarget (desk\<lparr>GetForegroundWindow := 0\<rparr>)
        [(''spotify'', ''Music''), (''chrome'', ''Browser'')]) = (''chrome'', True)
   \<and> CallEnumWindows \<notin> set (snd (FirstActiveTarget (desk\<lparr>GetForegroundWindow := 0\<rparr>)
        [(''spotify'', ''Music''), (''chrome'', ''Browser'')]))
   \<and> fst (isWindowActive (desk\<lparr>GetForegroundWindow := 0\<rparr>)
        (map fst [(''spotify'', ''Music''), (''chrome'', ''Browser'')])) = (''spotify'', True)"
proof -
  have h: "GetForegroundWindow desk \<noteq> 0
      \<and> foreground_title desk \<noteq> []
      \<and> ''code'' \<in> set (map fst [(''chrome'', ''Browser''), (''code'', ''Editor'')])
      \<and> Contains (ToLower desk (foreground_title desk)) ''code''
      \<and> (\<forall>k'\<in>set (map fst [(''chrome'', ''Browser''), (''code'', ''Editor'')]).
            k' \<noteq> ''code'' \<longrightarrow> \<not> Contains (ToLower desk (foreground_title desk)) k')"
  proof -
    have "GetForegroundWindow desk \<noteq> 0" by (simp add: desk_def)
    with desk_title_chrome desk_title_code show ?thesis
      by (simp add: desk_foreground_title)
  qed
  from foreground_title_wins [where e = desk and k = "''code''"
      and targets = "[(''chrome'', ''Browser''), (''code'', ''Editor'')]"] h
  have 1: "FirstActiveTarget desk [(''chrome'', ''Browser''), (''code'', ''Editor'')] =
       ((''code'', True), CallGetForegroundWindow # snd (getWindowText desk (GetForegroundWindow desk)))
     \<and> CallProcesses \<notin> set (snd (FirstActiveTarget desk [(''chrome'', ''Browser''), (''code'', ''Editor'')]))
     \<and> CallEnumWindows \<notin> set (snd (FirstActiveTarget desk [(''chrome'', ''Browser''), (''code'', ''Editor'')]))"
    by blast
  note t = foreground_title_wins [where e = "desk\<lparr>GetForegroundWindow := 0\<rparr>"
      and targets = "[(''spotify'', ''Music''), (''chrome'', ''Browser'')]" and k = "[]"]
  from t [THEN conjunct1] desk_background
  have 2: "fst (FirstActiveTarget (desk\<lparr>GetForegroundWindow := 0\<rparr>)
        [(''spotify'', ''Music''), (''chrome'', ''Browser'')]) = (''chrome'', True)"
    by simp
  from t [THEN conjunct2, THEN conjunct2, THEN conjunct1] desk_background
  have 3: "CallEnumWindows \<notin> set (snd (FirstActiveTarget (desk\<lparr>GetForegroundWindow := 0\<rparr>)
        [(''spotify'', ''Music''), (''chrome'', ''Browser'')]))"
    by simp
  from 1 2 3 desk_process_chrome desk_background(3) show ?thesis by blast
qed

text \<open>
  Claim C1, as stated, fails for the empty keyword on a foreground window with an empty
  title. The empty keyword is the only keyword and it occurs in the (empty) lowered
  title, yet the title is not tested and the foreground strategy finds nothing: the list
  of processes is asked for, and it is there that the keyword is found.
\<close>

theorem foreground_title_counterexample:
  "GetForegroundWindow blank \<noteq> 0
   \<and> map fst [([], ''Anything'')] = [[]]
   \<and> Contains (ToLower blank (foreground_title blank)) []
   \<and> fst (getForegroundTarget blank (map fst [([], ''Anything'')])) = ([], False)
   \<and> CallProcesses \<in> set (snd (FirstActiveTarget blank [([], ''Anything'')]))
   \<and> FirstActiveTarget blank [([], ''Anything'')] =
       (([], True),
        [CallGetForegroundWindow, CallGetWindowTextLengthW 1, CallGetWindowThreadProcessId 1,
         CallProcesses])"
  by (simp add: foreground_title_def desk_defs matcher_defs)


section \<open>The enumeration of windows\<close>

lemma examined_append: "examined (a @ b) = examined a @ examined b"
  by (induction a rule: examined.induct) simp_all

lemma title_queries_append: "title_queries (a @ b) = title_queries a @ title_queries b"
  by (induction a rule: title_queries.induct) simp_all

lemma examined_getWindowText: "examined (snd (getWindowText e h)) = []"
  by (simp add: getWindowText_trace)

lemma title_queries_getWindowText: "title_queries (snd (getWindowText e h)) = [h]"
  by (simp add: getWindowText_trace)

lemma examined_cb: "examined (snd (cb e ks h s)) = [h]"
  by (simp add: cb_snd examined_getWindowText)

lemma title_queries_cb:
  "title_queries (snd (cb e ks h s)) = (if IsWindowVisible e h = 0 then [] else [h])"
  by (simp add: cb_snd title_queries_getWindowText)

lemma enumerate_cb_first:
  "\<forall>h\<in>set before. window_keyword e ks h = None \<Longrightarrow> window_keyword e ks hwnd = Some k \<Longrightarrow>
   fst (enumerate (cb e ks) (before @ hwnd # after) s) = (True, k)
   \<and> examined (snd (enumerate (cb e ks) (before @ hwnd # after) s)) = before @ [hwnd]
   \<and> title_queries (snd (enumerate (cb e ks) (before @ hwnd # after) s)) =
       filter (\<lambda>h. IsWindowVisible e h \<noteq> 0) (before @ [hwnd])"
proof (induction before)
  case Nil
  from Nil(2) have v: "IsWindowVisible e hwnd \<noteq> 0"
    using window_keyword_Some by blast
  from Nil(2) have "enumerate (cb e ks) (hwnd # after) s = ((True, k), snd (cb e ks hwnd s))"
    by (rule enumerate_cb_hit)
  with v show ?case
    by (simp add: examined_cb title_queries_cb del: enumerate.simps)
next
  case (Cons h before)
  from Cons.prems(1) have n: "window_keyword e ks h = None" by simp
  from Cons.prems(1) have r: "\<forall>h\<in>set before. window_keyword e ks h = None" by simp
  have step: "enumerate (cb e ks) (h # before @ hwnd # after) s =
      (fst (enumerate (cb e ks) (before @ hwnd # after) s),
       snd (cb e ks h s) @ snd (enumerate (cb e ks) (before @ hwnd # after) s))"
    using n by (rule enumerate_cb_miss)
  from Cons.IH [OF r Cons.prems(2)] step show ?case
    by (simp add: examined_append title_queries_append examined_cb title_queries_cb
        del: enumerate.simps)
qed

lemma isWindowActive_snd:
  "\<exists>logged. snd (isWindowActive e ks) =
     CallEnumWindows # snd (enumerate (cb e ks) (fst (EnumWindows e)) []) @ logged
     \<and> (logged = [] \<or> logged = [LogPrintf ''Warning: EnumWindows call failed with an error: %v''])"
  by (simp add: isWindowActive_def Let_def split: prod.splits)

lemma examined_isWindowActive:
  "examined (snd (isWindowActive e ks)) =
     examined (snd (enumerate (cb e ks) (fst (EnumWindows e)) []))"
  using isWindowActive_snd [of e ks] by (auto simp: examined_append)

lemma title_queries_isWindowActive:
  "title_queries (snd (isWindowActive e ks)) =
     title_queries (snd (enumerate (cb e ks) (fst (EnumWindows e)) []))"
  using isWindowActive_snd [of e ks] by (auto simp: title_queries_append)

text \<open>
  Claim C3, as the code has it. Let a window of the enumeration be visible and have a
  title that is not empty, let \<open>k\<close> be the first keyword, in the order of the loop, that
  occurs in its lowered title, and let \<open>k\<close> not be the empty string. If every window
  enumerated before it is hidden, or has an empty title, or has a title in which no
  keyword occurs, then \<open>isWindowActive\<close> returns \<open>k\<close> with \<open>found = true\<close>; the callback
  has run on the windows up to this one, in enumeration order, and on no later window;
  and the title has been queried for the visible ones among them only.
\<close>

theorem first_matching_window:
  assumes "fst (EnumWindows e) = before @ hwnd # after"
    and "\<forall>h\<in>set before. IsWindowVisible e h = 0 \<or> fst (getWindowText e h) = []
           \<or> (\<forall>k'\<in>set ks. \<not> Contains (ToLower e (fst (getWindowText e h))) k')"
    and "IsWindowVisible e hwnd \<noteq> 0"
    and "fst (getWindowText e hwnd) \<noteq> []"
    and "range_keywords (ToLower e (fst (getWindowText e hwnd))) ks = Some k"
    and "k \<noteq> []"
  shows "fst (isWindowActive e ks) = (k, True)
         \<and> examined (snd (isWindowActive e ks)) = before @ [hwnd]
         \<and> title_queries (snd (isWindowActive e ks)) =
             filter (\<lambda>h. IsWindowVisible e h \<noteq> 0) (before @ [hwnd])"
proof -
  have miss: "\<forall>h\<in>set before. window_keyword e ks h = None"
  proof
    fix h assume "h \<in> set before"
    with assms(2) have "IsWindowVisible e h = 0
        \<or> title_keyword e ks (fst (getWindowText e h)) = None"
      by (simp only: title_keyword_None)
    then show "window_keyword e ks h = None"
      by (auto simp: window_keyword_def)
  qed
  from assms(3-5) have hit: "window_keyword e ks hwnd = Some k"
    by (simp add: window_keyword_def title_keyword_def)
  from enumerate_cb_first [OF miss hit, of after "[]"] assms(1,6) show ?thesis
    by (simp add: isWindowActive_fst examined_isWindowActive title_queries_isWindowActive
        del: enumerate.simps)
qed

lemma stacked_windows:
  "fst (EnumWindows (desk\<lparr>EnumWindows := ([2, 3, 1], 1, Some 0), IsWindowVisible := all_visible\<rparr>))
     = [2] @ 3 # [1]"
  by simp

lemma stacked_before:
  "\<forall>h\<in>set [2].
     IsWindowVisible (desk\<lparr>EnumWindows := ([2, 3, 1], 1, Some 0), IsWindowVisible := all_visible\<rparr>) h = 0
     \<or> fst (getWindowText (desk\<lparr>EnumWindows := ([2, 3, 1], 1, Some 0), IsWindowVisible := all_visible\<rparr>) h) = []
     \<or> (\<forall>k'\<in>set [''code'', ''spotify''].
          \<not> Contains (ToLower (desk\<lparr>EnumWindows := ([2, 3, 1], 1, Some 0), IsWindowVisible := all_visible\<rparr>)
               (fst (getWindowText (desk\<lparr>EnumWindows := ([2, 3, 1], 1, Some 0), IsWindowVisible := all_visible\<rparr>) h))) k')"
  by (simp add: desk_defs matcher_defs)

lemma stacked_hit:
  "IsWindowVisible (desk\<lparr>EnumWindows := ([2, 3, 1], 1, Some 0), IsWindowVisible := all_visible\<rparr>) 3 \<noteq> 0"
  "fst (getWindowText (desk\<lparr>EnumWindows := ([2, 3, 1], 1, Some 0), IsWindowVisible := all_visible\<rparr>) 3) \<noteq> []"
  "range_keywords (ToLower (desk\<lparr>EnumWindows := ([2, 3, 1], 1, Some 0), IsWindowVisible := all_visible\<rparr>)
      (fst (getWindowText (desk\<lparr>EnumWindows := ([2, 3, 1], 1, Some 0), IsWindowVisible := all_visible\<rparr>) 3)))
      [''code'', ''spotify''] = Some ''spotify''"
  by (simp_all add: desk_defs matcher_defs)

lemma stacked_later:
  "Contains (ToLower (desk\<lparr>EnumWindows := ([2, 3, 1], 1, Some 0), IsWindowVisible := all_visible\<rparr>)
      (fst (getWindowText (desk\<lparr>EnumWindows := ([2, 3, 1], 1, Some 0), IsWindowVisible := all_visible\<rparr>) 1)))
      ''code''"
  by (simp add: desk_defs matcher_defs)

text \<open>
  The windows 2, 3 and 1 of the concrete desktop, all visible, in this order: window 2
  contains no keyword, window 3 contains "spotify", and window 1, which contains "code",
  is never looked at.
\<close>

theorem first_matching_window_witness:
  "fst (isWindowActive (desk\<lparr>EnumWindows := ([2, 3, 1], 1, Some 0), IsWindowVisible := all_visible\<rparr>)
      [''code'', ''spotify'']) = (''spotify'', True)
   \<and> examined (snd (isWindowActive (desk\<lparr>EnumWindows := ([2, 3, 1], 1, Some 0), IsWindowVisible := all_visible\<rparr>)
      [''code'', ''spotify''])) = [2, 3]
   \<and> Contains (ToLower (desk\<lparr>EnumWindows := ([2, 3, 1], 1, Some 0), IsWindowVisible := all_visible\<rparr>)
      (fst (getWindowText (desk\<lparr>EnumWindows := ([2, 3, 1], 1, Some 0), IsWindowVisible := all_visible\<rparr>) 1)))
      ''code''"
proof -
  have ne: "''spotify'' \<noteq> []" by simp
  from first_matching_window [OF stacked_windows stacked_before stacked_hit ne] stacked_later
  show ?thesis by simp
qed

text \<open>
  Claim C3, as stated, fails when the empty string is a keyword and a visible window has
  an empty title. Window 1 comes first, is visible, and its (empty) lowered title
  contains the keyword "" and does not contain "code"; the callback passes it over,
  runs on window 2 as well, and "code" is reported.
\<close>

theorem first_matching_window_counterexample:
  "fst (EnumWindows blank) = [1, 2]
   \<and> IsWindowVisible blank 1 \<noteq> 0
   \<and> Contains (ToLower blank (fst (getWindowText blank 1))) []
   \<and> \<not> Contains (ToLower blank (fst (getWindowText blank 1))) ''code''
   \<and> fst (isWindowActive blank [''code'', []]) = (''code'', True)
   \<and> examined (snd (isWindowActive blank [''code'', []])) = [1, 2]"
  by (simp add: desk_defs matcher_defs)


section \<open>Process handles\<close>

lemma open_handles_append: "open_handles (a @ b) hs = open_handles b (open_handles a hs)"
  by (induction a hs rule: open_handles.induct) simp_all

lemma open_handles_getWindowText: "open_handles (snd (getWindowText e h)) hs = hs"
  by (simp add: getWindowText_trace)

lemma open_handles_deferred_close: "open_handles (deferred_close e handle) hs = remove1 handle hs"
  by (simp add: deferred_close_def)

lemma open_handles_foreground_process:
  "open_handles (snd (foreground_process e ks h)) hs = hs"
  by (simp add: foreground_process_snd open_handles_deferred_close)

lemma open_handles_getForegroundTarget:
  "open_handles (snd (getForegroundTarget e ks)) hs = hs"
  by (simp add: getForegroundTarget_snd open_handles_append open_handles_getWindowText
      open_handles_foreground_process split: option.splits)

lemma open_handles_cb: "open_handles (snd (cb e ks h s)) hs = hs"
  by (simp add: cb_snd open_handles_getWindowText)

lemma open_handles_enumerate: "open_handles (snd (enumerate (cb e ks) ws s)) hs = hs"
proof (induction ws)
  case Nil
  then show ?case by simp
next
  case (Cons h ws)
  show ?case
  proof (cases "window_keyword e ks h")
    case None
    from enumerate_cb_miss [OF None, of ws s] Cons.IH show ?thesis
      by (simp add: open_handles_append open_handles_cb del: enumerate.simps)
  next
    case (Some k)
    from enumerate_cb_hit [OF Some, of ws s] show ?thesis
      by (simp add: open_handles_cb del: enumerate.simps)
  qed
qed

lemma open_handles_isWindowActive: "open_handles (snd (isWindowActive e ks)) hs = hs"
  using isWindowActive_snd [of e ks]
  by (auto simp: open_handles_append open_handles_enumerate)

lemma foreground_process_opened:
  assumes "CallOpenProcess pid handle \<in> set (snd (foreground_process e ks h))" and "handle \<noteq> 0"
  shows "snd (foreground_process e ks h) =
           [CallGetWindowThreadProcessId h, CallOpenProcess pid handle,
            CallGetModuleFileNameExW handle] @ deferred_close e handle"
proof -
  have nc: "CallOpenProcess pid handle \<notin> set (deferred_close e x)" for x
    by (simp add: deferred_close_def)
  from assms nc show ?thesis
    by (auto simp: foreground_process_snd split: if_splits)
qed

text \<open>
  Claim C5. In the trace of \<open>getForegroundTarget\<close> no process handle is left open,
  whatever the environment answers and whichever way the function returns. When
  \<open>OpenProcess\<close> gave a handle, the trace ends with the call of \<open>OpenProcess\<close>, the query
  of the module file name on this handle, and the call of \<open>CloseHandle\<close> on it, after
  which nothing follows but the warning that is logged when \<open>CloseHandle\<close> reports a
  failure. The other two strategies open no handle, so that none is open when
  \<open>FirstActiveTarget\<close> returns.
\<close>

theorem process_handle_released:
  "open_handles (snd (getForegroundTarget e ks)) [] = []
   \<and> (CallOpenProcess pid handle \<in> set (snd (getForegroundTarget e ks)) \<and> handle \<noteq> 0 \<longrightarrow>
        (\<exists>before logged.
           snd (getForegroundTarget e ks) =
             before @ [CallOpenProcess pid handle, CallGetModuleFileNameExW handle,
                       CallCloseHandle handle] @ logged
           \<and> (logged = []
              \<or> logged = [LogPrintf ''Warning: Failed to close process handle %v: %v''])))
   \<and> open_handles (snd (FirstActiveTarget e targets)) [] = []"
proof (intro conjI impI)
  show "open_handles (snd (getForegroundTarget e ks)) [] = []"
    by (rule open_handles_getForegroundTarget)
next
  show "open_handles (snd (FirstActiveTarget e targets)) [] = []"
    by (simp add: FirstActiveTarget_snd open_handles_append open_handles_getForegroundTarget
        isProcessActive_trace open_handles_isWindowActive)
next
  assume a: "CallOpenProcess pid handle \<in> set (snd (getForegroundTarget e ks)) \<and> handle \<noteq> 0"
  let ?h = "GetForegroundWindow e"
  have ng: "CallOpenProcess pid handle \<notin> set (snd (getWindowText e ?h))"
    using getWindowText_calls [of "CallOpenProcess pid handle" e ?h] by auto
  from a ng have nz: "?h \<noteq> 0" and tk: "title_keyword e ks (foreground_title e) = None"
    and mem: "CallOpenProcess pid handle \<in> set (snd (foreground_process e ks ?h))"
    by (auto simp: getForegroundTarget_snd split: if_splits option.splits)
  from a have h0: "handle \<noteq> 0" by simp
  from foreground_process_opened [OF mem h0]
  have fp: "snd (foreground_process e ks ?h) =
      [CallGetWindowThreadProcessId ?h, CallOpenProcess pid handle,
       CallGetModuleFileNameExW handle] @ deferred_close e handle" .
  let ?before = "CallGetForegroundWindow # snd (getWindowText e ?h) @ [CallGetWindowThreadProcessId ?h]"
  let ?logged = "tl (deferred_close e handle)"
  from nz tk fp have "snd (getForegroundTarget e ks) =
      ?before @ [CallOpenProcess pid handle, CallGetModuleFileNameExW handle,
                 CallCloseHandle handle] @ ?logged"
    by (simp add: getForegroundTarget_snd deferred_close_def)
  moreover have "?logged = []
      \<or> ?logged = [LogPrintf ''Warning: Failed to close process handle %v: %v'']"
    by (simp add: deferred_close_def)
  ultimately show "\<exists>before logged.
      snd (getForegroundTarget e ks) =
        before @ [CallOpenProcess pid handle, CallGetModuleFileNameExW handle,
                  CallCloseHandle handle] @ logged
      \<and> (logged = [] \<or> logged = [LogPrintf ''Warning: Failed to close process handle %v: %v''])"
    by blast
qed

lemma desk_exe:
  "getForegroundTarget desk [''exe''] =
     ((''exe'', True),
      [CallGetForegroundWindow, CallGetWindowTextLengthW 1, CallGetWindowTextW 1 32,
       CallGetWindowThreadProcessId 1, CallOpenProcess 42 128, CallGetModuleFileNameExW 128,
       CallCloseHandle 128])"
  by (simp add: desk_defs matcher_defs)

text \<open>
  On the concrete desktop the title of the foreground window does not contain "exe", the
  handle 128 is opened for process 42, whose executable Code.exe does, and the handle is
  closed before the function returns.
\<close>

theorem process_handle_released_witness:
  "CallOpenProcess 42 128 \<in> set (snd (getForegroundTarget desk [''exe'']))
   \<and> open_handles (snd (getForegroundTarget desk [''exe''])) [] = []
   \<and> (\<exists>before logged.
         snd (getForegroundTarget desk [''exe'']) =
           before @ [CallOpenProcess 42 128, CallGetModuleFileNameExW 128, CallCloseHandle 128]
             @ logged
         \<and> (logged = []
            \<or> logged = [LogPrintf ''Warning: Failed to close process handle %v: %v'']))"
proof -
  have m: "CallOpenProcess 42 128 \<in> set (snd (getForegroundTarget desk [''exe'']))
      \<and> (128 :: uintptr) \<noteq> 0"
    by (simp add: desk_exe)
  from process_handle_released [of desk "[''exe'']" 42 128 "[]"] m show ?thesis
    by blast
qed


section \<open>Failures inside the strategies\<close>

lemma foreground_process_failure:
  "snd (GetWindowThreadProcessId e h) \<noteq> None
   \<or> fst (GetWindowThreadProcessId e h) = 0
   \<or> OpenProcess e (fst (GetWindowThreadProcessId e h)) = 0
   \<or> fst (GetModuleFileNameExW e (OpenProcess e (fst (GetWindowThreadProcessId e h)))) = 0
   \<Longrightarrow> fst (foreground_process e ks h) = ([], False)"
  by (auto simp: foreground_process_def Let_def split: prod.splits option.splits)

lemma window_passed_over:
  "IsWindowVisible e h = 0 \<or> fst (getWindowText e h) = [] \<Longrightarrow> window_keyword e ks h = None"
  by (auto simp: window_keyword_def title_keyword_def)

lemma getWindowText_EnumWindows_update:
  "getWindowText (e\<lparr>EnumWindows := x\<rparr>) h = getWindowText e h"
  by (simp add: getWindowText_def Let_def cong: if_cong)

lemma title_keyword_EnumWindows_update:
  "title_keyword (e\<lparr>EnumWindows := x\<rparr>) ks title = title_keyword e ks title"
  by (simp add: title_keyword_def)

lemma cb_EnumWindows_update: "cb (e\<lparr>EnumWindows := x\<rparr>) ks = cb e ks"
  by (intro ext)
    (simp add: cb_def getWindowText_EnumWindows_update title_keyword_EnumWindows_update)

lemma FirstActiveTarget_falls_through:
  assumes "\<not> snd (fst (getForegroundTarget e (map fst targets)))"
  shows "fst (FirstActiveTarget e targets) =
           (if snd (fst (isProcessActive e (map fst targets)))
            then fst (isProcessActive e (map fst targets))
            else fst (isWindowActive e (map fst targets)))"
proof (cases "snd (fst (isProcessActive e (map fst targets)))")
  case True
  with assms show ?thesis
    by (simp add: FirstActiveTarget_fst prod_eq_iff)
next
  case False
  show ?thesis
  proof (cases "snd (fst (isWindowActive e (map fst targets)))")
    case True
    with assms False show ?thesis
      by (simp add: FirstActiveTarget_fst prod_eq_iff)
  next
    case nf: False
    then have "fst (isWindowActive e (map fst targets)) =
        (fst (fst (isWindowActive e (map fst targets))), False)"
      by (simp add: prod_eq_iff)
    from this isWindowActive_False [OF this]
    have "fst (isWindowActive e (map fst targets)) = ([], False)" by simp
    with assms False show ?thesis
      by (simp add: FirstActiveTarget_fst)
  qed
qed

lemma getForegroundTarget_genuine:
  assumes "fst (getForegroundTarget e ks) = (k, True)"
  shows "GetForegroundWindow e \<noteq> 0
         \<and> (foreground_title e \<noteq> [] \<and> Contains (ToLower e (foreground_title e)) k
            \<or> executable_found e (GetForegroundWindow e)
               \<and> Contains (ToLower e (foreground_exe e)) k)"
proof -
  from assms have nz: "GetForegroundWindow e \<noteq> 0"
    by (cases "GetForegroundWindow e = 0") (simp_all add: getForegroundTarget_fst)
  show ?thesis
  proof (cases "title_keyword e ks (foreground_title e)")
    case None
    with assms nz have fp: "fst (foreground_process e ks (GetForegroundWindow e)) = (k, True)"
      by (simp add: getForegroundTarget_fst)
    then have "snd (fst (foreground_process e ks (GetForegroundWindow e)))" by simp
    then have "executable_found e (GetForegroundWindow e)"
      by (simp add: foreground_process_found)
    moreover from fp have "Contains (ToLower e (foreground_exe e)) k"
      using foreground_process_True [of e ks "GetForegroundWindow e" k]
      by (simp add: foreground_exe_def)
    ultimately show ?thesis using nz by blast
  next
    case (Some k')
    with assms nz have "k' = k" by (simp add: getForegroundTarget_fst)
    with Some have "foreground_title e \<noteq> [] \<and> Contains (ToLower e (foreground_title e)) k"
      using title_keyword_Some [of e ks "foreground_title e" k] by simp
    with nz show ?thesis by blast
  qed
qed

lemma isProcessActive_genuine:
  assumes "fst (isProcessActive e ks) = (k, True)"
  shows "snd (Processes e) = None \<and> (\<exists>p\<in>set (fst (Processes e)). Contains (ToLower e p) k)"
proof -
  from assms have "snd (fst (isProcessActive e ks))" by simp
  then have "snd (Processes e) = None"
    by (simp add: isProcessActive_found)
  with isProcessActive_True [OF assms] show ?thesis by blast
qed

lemma isWindowActive_genuine:
  assumes "fst (isWindowActive e ks) = (k, True)"
  shows "\<exists>h\<in>set (fst (EnumWindows e)). IsWindowVisible e h \<noteq> 0
           \<and> fst (getWindowText e h) \<noteq> []
           \<and> Contains (ToLower e (fst (getWindowText e h))) k"
proof -
  obtain st s' where r: "fst (enumerate (cb e ks) (fst (EnumWindows e)) []) = (st, s')"
    by (cases "fst (enumerate (cb e ks) (fst (EnumWindows e)) [])")
  with assms have k: "s' = k" and ne: "s' \<noteq> []"
    by (simp_all add: isWindowActive_fst split: if_splits)
  from enumerate_cb_result [OF r] ne
  obtain h where h: "h \<in> set (fst (EnumWindows e))" "window_keyword e ks h = Some s'"
    by auto
  from window_keyword_Some [OF h(2)] h(1) k show ?thesis by auto
qed

lemma FirstActiveTarget_genuine:
  assumes "fst (FirstActiveTarget e targets) = (k, True)"
  shows "GetForegroundWindow e \<noteq> 0 \<and> foreground_title e \<noteq> []
           \<and> Contains (ToLower e (foreground_title e)) k
         \<or> GetForegroundWindow e \<noteq> 0 \<and> executable_found e (GetForegroundWindow e)
           \<and> Contains (ToLower e (foreground_exe e)) k
         \<or> snd (Processes e) = None
           \<and> (\<exists>p\<in>set (fst (Processes e)). Contains (ToLower e p) k)
         \<or> (\<exists>h\<in>set (fst (EnumWindows e)). IsWindowVisible e h \<noteq> 0
              \<and> fst (getWindowText e h) \<noteq> []
              \<and> Contains (ToLower e (fst (getWindowText e h))) k)"
proof -
  from assms consider
      (fg) "fst (getForegroundTarget e (map fst targets)) = (k, True)"
    | (pr) "fst (isProcessActive e (map fst targets)) = (k, True)"
    | (wi) "fst (isWindowActive e (map fst targets)) = (k, True)"
    using FirstActiveTarget_True by blast
  then show ?thesis
  proof cases
    case fg
    from getForegroundTarget_genuine [OF fg] show ?thesis by blast
  next
    case pr
    from isProcessActive_genuine [OF pr] show ?thesis by blast
  next
    case wi
    from isWindowActive_genuine [OF wi] show ?thesis by blast
  qed
qed

lemma getForegroundTarget_no_title_match:
  assumes "GetForegroundWindow e \<noteq> 0"
    and "foreground_title e = [] \<or> (\<forall>k\<in>set ks. \<not> Contains (ToLower e (foreground_title e)) k)"
  shows "fst (getForegroundTarget e ks) = fst (foreground_process e ks (GetForegroundWindow e))"
proof -
  from assms(2) have "title_keyword e ks (foreground_title e) = None"
    by (simp only: title_keyword_None)
  with assms(1) show ?thesis
    by (simp add: getForegroundTarget_fst)
qed

lemma getWindowText_failure:
  "queried_length e h = 0 \<or> fst (GetWindowTextW e h (queried_length e h + 1)) = 0
   \<Longrightarrow> fst (getWindowText e h) = []"
  using getWindowText_length0 [of e h] getWindowText_ret0 [of e h] by auto

text \<open>
  Claim C2. The matcher has no error result: each strategy and \<open>FirstActiveTarget\<close>
  return a keyword and a flag in every environment. A failure makes the step it occurs in
  find nothing, and the next step is taken:
  \<^item> without a foreground window the first strategy finds nothing;
  \<^item> a title query that fails, or gives no title, yields the empty title;
  \<^item> with an empty title, or a title in which no keyword occurs, the first strategy goes
    on to the owning process and its result is that of the process step;
  \<^item> an error or a process id of 0 from \<open>GetWindowThreadProcessId\<close>, no handle from
    \<open>OpenProcess\<close>, or a length of 0 from \<open>GetModuleFileNameExW\<close> make the process step
    find nothing;
  \<^item> an error from \<open>ps.Processes\<close> makes the second strategy find nothing;
  \<^item> a window that is hidden or has an empty title is passed over and the enumeration
    goes on with the next window;
  \<^item> what \<open>EnumWindows\<close> itself returns only decides about a log entry;
  \<^item> when the first strategy finds nothing, the list of processes is asked for, and the
    result is that of the second strategy if it finds something and that of the third
    otherwise.
  No failure gives a keyword with \<open>found = true\<close>: a keyword that is reported is a key
  of the mapping and occurs in the lowered form of a title that was retrieved and is not
  empty, of the file name of the foreground process when every query about it succeeded,
  or of the executable name of a process when the processes could be listed.
\<close>

theorem failures_fall_through:
  "(GetForegroundWindow e = 0 \<longrightarrow> fst (getForegroundTarget e ks) = ([], False))
   \<and> (queried_length e h = 0 \<or> fst (GetWindowTextW e h (queried_length e h + 1)) = 0 \<longrightarrow>
        fst (getWindowText e h) = [])
   \<and> (GetForegroundWindow e \<noteq> 0
        \<and> (foreground_title e = []
           \<or> (\<forall>k\<in>set ks. \<not> Contains (ToLower e (foreground_title e)) k)) \<longrightarrow>
        fst (getForegroundTarget e ks) = fst (foreground_process e ks (GetForegroundWindow e)))
   \<and> (snd (GetWindowThreadProcessId e h) \<noteq> None
        \<or> fst (GetWindowThreadProcessId e h) = 0
        \<or> OpenProcess e (fst (GetWindowThreadProcessId e h)) = 0
        \<or> fst (GetModuleFileNameExW e (OpenProcess e (fst (GetWindowThreadProcessId e h)))) = 0
       \<longrightarrow> fst (foreground_process e ks h) = ([], False))
   \<and> (snd (Processes e) \<noteq> None \<longrightarrow> fst (isProcessActive e ks) = ([], False))
   \<and> (IsWindowVisible e h = 0 \<or> fst (getWindowText e h) = [] \<longrightarrow>
        fst (cb e ks h s) = (1, s)
        \<and> fst (enumerate (cb e ks) (h # hs) s) = fst (enumerate (cb e ks) hs s))
   \<and> fst (isWindowActive (e\<lparr>EnumWindows := (fst (EnumWindows e), ret, err)\<rparr>) ks) =
       fst (isWindowActive e ks)
   \<and> (\<not> snd (fst (getForegroundTarget e (map fst targets))) \<longrightarrow>
        CallProcesses \<in> set (snd (FirstActiveTarget e targets))
        \<and> fst (FirstActiveTarget e targets) =
            (if snd (fst (isProcessActive e (map fst targets)))
             then fst (isProcessActive e (map fst targets))
             else fst (isWindowActive e (map fst targets))))
   \<and> (fst (FirstActiveTarget e targets) = (k, True) \<longrightarrow>
        k \<in> set (map fst targets)
        \<and> (GetForegroundWindow e \<noteq> 0 \<and> foreground_title e \<noteq> []
             \<and> Contains (ToLower e (foreground_title e)) k
           \<or> GetForegroundWindow e \<noteq> 0 \<and> executable_found e (GetForegroundWindow e)
             \<and> Contains (ToLower e (foreground_exe e)) k
           \<or> snd (Processes e) = None
             \<and> (\<exists>p\<in>set (fst (Processes e)). Contains (ToLower e p) k)
           \<or> (\<exists>h\<in>set (fst (EnumWindows e)). IsWindowVisible e h \<noteq> 0
                \<and> fst (getWindowText e h) \<noteq> []
                \<and> Contains (ToLower e (fst (getWindowText e h))) k)))"
proof (intro conjI impI)
  assume "GetForegroundWindow e = 0"
  then show "fst (getForegroundTarget e ks) = ([], False)"
    by (simp add: getForegroundTarget_fst)
next
  assume "queried_length e h = 0 \<or> fst (GetWindowTextW e h (queried_length e h + 1)) = 0"
  then show "fst (getWindowText e h) = []"
    by (rule getWindowText_failure)
next
  assume "GetForegroundWindow e \<noteq> 0
        \<and> (foreground_title e = []
           \<or> (\<forall>k\<in>set ks. \<not> Contains (ToLower e (foreground_title e)) k))"
  then show "fst (getForegroundTarget e ks) = fst (foreground_process e ks (GetForegroundWindow e))"
    by (intro getForegroundTarget_no_title_match) simp_all
next
  assume "snd (GetWindowThreadProcessId e h) \<noteq> None
        \<or> fst (GetWindowThreadProcessId e h) = 0
        \<or> OpenProcess e (fst (GetWindowThreadProcessId e h)) = 0
        \<or> fst (GetModuleFileNameExW e (OpenProcess e (fst (GetWindowThreadProcessId e h)))) = 0"
  then show "fst (foreground_process e ks h) = ([], False)"
    by (rule foreground_process_failure)
next
  assume "snd (Processes e) \<noteq> None"
  then show "fst (isProcessActive e ks) = ([], False)"
    by (simp add: isProcessActive_fst)
next
  assume "IsWindowVisible e h = 0 \<or> fst (getWindowText e h) = []"
  then have "window_keyword e ks h = None"
    by (rule window_passed_over)
  then show "fst (cb e ks h s) = (1, s)"
    by (simp add: cb_fst)
next
  assume "IsWindowVisible e h = 0 \<or> fst (getWindowText e h) = []"
  then have "window_keyword e ks h = None"
    by (rule window_passed_over)
  from enumerate_cb_miss [OF this, of hs s]
  show "fst (enumerate (cb e ks) (h # hs) s) = fst (enumerate (cb e ks) hs s)"
    by (simp del: enumerate.simps)
next
  show "fst (isWindowActive (e\<lparr>EnumWindows := (fst (EnumWindows e), ret, err)\<rparr>) ks) =
       fst (isWindowActive e ks)"
    by (simp add: isWindowActive_fst cb_EnumWindows_update)
next
  assume "\<not> snd (fst (getForegroundTarget e (map fst targets)))"
  then show "CallProcesses \<in> set (snd (FirstActiveTarget e targets))"
    by (simp add: FirstActiveTarget_snd isProcessActive_trace)
next
  assume "\<not> snd (fst (getForegroundTarget e (map fst targets)))"
  then show "fst (FirstActiveTarget e targets) =
            (if snd (fst (isProcessActive e (map fst targets)))
             then fst (isProcessActive e (map fst targets))
             else fst (isWindowActive e (map fst targets)))"
    by (rule FirstActiveTarget_falls_through)
next
  assume "fst (FirstActiveTarget e targets) = (k, True)"
  then show "k \<in> set (map fst targets)"
    by (rule FirstActiveTarget_key)
next
  assume "fst (FirstActiveTarget e targets) = (k, True)"
  then show "GetForegroundWindow e \<noteq> 0 \<and> foreground_title e \<noteq> []
             \<and> Contains (ToLower e (foreground_title e)) k
           \<or> GetForegroundWindow e \<noteq> 0 \<and> executable_found e (GetForegroundWindow e)
             \<and> Contains (ToLower e (foreground_exe e)) k
           \<or> snd (Processes e) = None
             \<and> (\<exists>p\<in>set (fst (Processes e)). Contains (ToLower e p) k)
           \<or> (\<exists>h\<in>set (fst (EnumWindows e)). IsWindowVisible e h \<noteq> 0
                \<and> fst (getWindowText e h) \<noteq> []
                \<and> Contains (ToLower e (fst (getWindowText e h))) k)"
    by (rule FirstActiveTarget_genuine)
qed

lemma blank_foreground:
  "GetForegroundWindow blank \<noteq> 0
   \<and> (foreground_title blank = []
      \<or> (\<forall>k\<in>set [''exe'']. \<not> Contains (ToLower blank (foreground_title blank)) k))"
  "snd (GetWindowThreadProcessId blank (GetForegroundWindow blank)) \<noteq> None
   \<or> fst (GetWindowThreadProcessId blank (GetForegroundWindow blank)) = 0
   \<or> OpenProcess blank (fst (GetWindowThreadProcessId blank (GetForegroundWindow blank))) = 0
   \<or> fst (GetModuleFileNameExW blank
        (OpenProcess blank (fst (GetWindowThreadProcessId blank (GetForegroundWindow blank))))) = 0"
  by (simp_all add: foreground_title_def desk_defs matcher_defs)

lemma desk_titled_foreground:
  "GetForegroundWindow (desk\<lparr>GetWindowThreadProcessId := pid_error\<rparr>) \<noteq> 0
   \<and> (foreground_title (desk\<lparr>GetWindowThreadProcessId := pid_error\<rparr>) = []
      \<or> (\<forall>k\<in>set [''firefox''].
           \<not> Contains (ToLower (desk\<lparr>GetWindowThreadProcessId := pid_error\<rparr>)
                (foreground_title (desk\<lparr>GetWindowThreadProcessId := pid_error\<rparr>))) k))"
  "snd (GetWindowThreadProcessId (desk\<lparr>GetWindowThreadProcessId := pid_error\<rparr>)
        (GetForegroundWindow (desk\<lparr>GetWindowThreadProcessId := pid_error\<rparr>))) \<noteq> None"
  by (simp_all add: foreground_title_def desk_defs matcher_defs)

lemma desk_text_fails:
  "queried_length (desk\<lparr>GetWindowTextW := text_fails\<rparr>) 1 = 0
   \<or> fst (GetWindowTextW (desk\<lparr>GetWindowTextW := text_fails\<rparr>) 1
        (queried_length (desk\<lparr>GetWindowTextW := text_fails\<rparr>) 1 + 1)) = 0"
  by (simp add: desk_defs)

lemma desk_hidden_window: "IsWindowVisible desk 2 = 0 \<or> fst (getWindowText desk 2) = []"
  by (simp add: desk_defs)

lemma desk_no_foreground:
  "\<not> snd (fst (getForegroundTarget (desk\<lparr>GetForegroundWindow := 0\<rparr>) (map fst [(''chrome'', ''Browser'')])))"
  "fst (isProcessActive (desk\<lparr>GetForegroundWindow := 0\<rparr>) (map fst [(''chrome'', ''Browser'')]))
     = (''chrome'', True)"
  by (simp_all add: desk_defs matcher_defs)

text \<open>
  On the concrete desktops: no foreground window; a failing retrieval of the title; an
  empty title followed by an error for the process id; a title without keyword followed
  by an error for the process id; a failing list of processes; the hidden window 2; and
  the second strategy answering after the first has found nothing.
\<close>

theorem failures_fall_through_witness:
  "fst (getForegroundTarget (desk\<lparr>GetForegroundWindow := 0\<rparr>) [''code'']) = ([], False)
   \<and> fst (getWindowText (desk\<lparr>GetWindowTextW := text_fails\<rparr>) 1) = []
   \<and> fst (getForegroundTarget blank [''exe'']) = ([], False)
   \<and> fst (getForegroundTarget (desk\<lparr>GetWindowThreadProcessId := pid_error\<rparr>) [''firefox''])
       = ([], False)
   \<and> fst (isProcessActive (desk\<lparr>Processes := ([], Some ''access denied'')\<rparr>) [''chrome''])
       = ([], False)
   \<and> fst (enumerate (cb desk [''chrome'']) [2, 3] []) = fst (enumerate (cb desk [''chrome'']) [3] [])
   \<and> fst (FirstActiveTarget (desk\<lparr>GetForegroundWindow := 0\<rparr>) [(''chrome'', ''Browser'')])
       = (''chrome'', True)"
proof -
  note a = failures_fall_through [where e = "desk\<lparr>GetForegroundWindow := 0\<rparr>"
      and ks = "[''code'']" and targets = "[(''chrome'', ''Browser'')]" and k = "[]"]
  have 1: "fst (getForegroundTarget (desk\<lparr>GetForegroundWindow := 0\<rparr>) [''code'']) = ([], False)"
    using a [THEN conjunct1] by simp
  note b = failures_fall_through [where e = blank and ks = "[''exe'']"
      and h = "GetForegroundWindow blank"]
  have "fst (getForegroundTarget blank [''exe'']) =
      fst (foreground_process blank [''exe''] (GetForegroundWindow blank))"
    using b [THEN conjunct2, THEN conjunct2, THEN conjunct1] blank_foreground(1) by (rule mp)
  moreover have "fst (foreground_process blank [''exe''] (GetForegroundWindow blank)) = ([], False)"
    using b [THEN conjunct2, THEN conjunct2, THEN conjunct2, THEN conjunct1] blank_foreground(2)
    by (rule mp)
  ultimately have 2: "fst (getForegroundTarget blank [''exe'']) = ([], False)"
    by simp
  note c = failures_fall_through [where e = "desk\<lparr>Processes := ([], Some ''access denied'')\<rparr>"
      and ks = "[''chrome'']"]
  have 3: "fst (isProcessActive (desk\<lparr>Processes := ([], Some ''access denied'')\<rparr>) [''chrome''])
       = ([], False)"
    using c [THEN conjunct2, THEN conjunct2, THEN conjunct2, THEN conjunct2, THEN conjunct1]
    by simp
  note d = failures_fall_through [where e = desk and ks = "[''chrome'']" and h = 2
      and hs = "[3]" and s = "[]"]
  have 4: "fst (enumerate (cb desk [''chrome'']) [2, 3] []) = fst (enumerate (cb desk [''chrome'']) [3] [])"
    using d [THEN conjunct2, THEN conjunct2, THEN conjunct2, THEN conjunct2, THEN conjunct2,
        THEN conjunct1] desk_hidden_window
    by blast
  note f = failures_fall_through [where e = "desk\<lparr>GetForegroundWindow := 0\<rparr>"
      and targets = "[(''chrome'', ''Browser'')]"]
  have 5: "fst (FirstActiveTarget (desk\<lparr>GetForegroundWindow := 0\<rparr>) [(''chrome'', ''Browser'')])
       = (''chrome'', True)"
    using f [THEN conjunct2, THEN conjunct2, THEN conjunct2, THEN conjunct2, THEN conjunct2,
        THEN conjunct2, THEN conjunct2, THEN conjunct1] desk_no_foreground
    by simp
  note g = failures_fall_through [where e = "desk\<lparr>GetWindowTextW := text_fails\<rparr>" and h = 1]
  have 6: "fst (getWindowText (desk\<lparr>GetWindowTextW := text_fails\<rparr>) 1) = []"
    using g [THEN conjunct2, THEN conjunct1] desk_text_fails by (rule mp)
  note i = failures_fall_through [where e = "desk\<lparr>GetWindowThreadProcessId := pid_error\<rparr>"
      and ks = "[''firefox'']"
      and h = "GetForegroundWindow (desk\<lparr>GetWindowThreadProcessId := pid_error\<rparr>)"]
  have "fst (getForegroundTarget (desk\<lparr>GetWindowThreadProcessId := pid_error\<rparr>) [''firefox'']) =
      fst (foreground_process (desk\<lparr>GetWindowThreadProcessId := pid_error\<rparr>) [''firefox'']
        (GetForegroundWindow (desk\<lparr>GetWindowThreadProcessId := pid_error\<rparr>)))"
    using i [THEN conjunct2, THEN conjunct2, THEN conjunct1] desk_titled_foreground(1) by (rule mp)
  moreover have "fst (foreground_process (desk\<lparr>GetWindowThreadProcessId := pid_error\<rparr>) [''firefox'']
        (GetForegroundWindow (desk\<lparr>GetWindowThreadProcessId := pid_error\<rparr>))) = ([], False)"
    using i [THEN conjunct2, THEN conjunct2, THEN conjunct2, THEN conjunct1]
      desk_titled_foreground(2)
    by blast
  ultimately have 7: "fst (getForegroundTarget (desk\<lparr>GetWindowThreadProcessId := pid_error\<rparr>) [''firefox''])
       = ([], False)"
    by simp
  from 1 2 3 4 5 6 7 show ?thesis by blast
qed


section \<open>The event watcher\<close>

lemma deferred_unhook_eq:
  "deferred_unhook e hook warning =
     CallUnhookWinEvent hook # (if UnhookWinEvent e hook = 0 then [LogPrintf warning] else [])"
  by (simp add: deferred_unhook_def)

lemma StartEventWatcher_no_foreground_hook:
  "SetWinEventHook e eventSystemForeground eventSystemForeground = 0 \<Longrightarrow>
   StartEventWatcher e =
     (Exited, [CallSetWinEventHook eventSystemForeground eventSystemForeground,
               LogFatalf ''Fatal: Could not set foreground event hook: %v''])"
  by (simp add: StartEventWatcher_def)

lemma StartEventWatcher_no_create_hook:
  "SetWinEventHook e eventSystemForeground eventSystemForeground \<noteq> 0 \<Longrightarrow>
   SetWinEventHook e eventObjectCreate eventObjectDestroy = 0 \<Longrightarrow>
   StartEventWatcher e =
     (Exited, [CallSetWinEventHook eventSystemForeground eventSystemForeground,
               CallSetWinEventHook eventObjectCreate eventObjectDestroy,
               LogFatalf ''Fatal: Could not set create/destroy event hook: %v''])"
  by (simp add: StartEventWatcher_def)

lemma StartEventWatcher_returns:
  assumes "SetWinEventHook e eventSystemForeground eventSystemForeground \<noteq> 0"
    and "SetWinEventHook e eventObjectCreate eventObjectDestroy \<noteq> 0"
    and "fst (message_loop (MessageQueue e)) = Break"
  shows "StartEventWatcher e =
     (Returned,
      [CallSetWinEventHook eventSystemForeground eventSystemForeground,
       CallSetWinEventHook eventObjectCreate eventObjectDestroy]
      @ snd (message_loop (MessageQueue e))
      @ deferred_unhook e (SetWinEventHook e eventObjectCreate eventObjectDestroy)
          ''Warning: Failed to unhook create/destroy event hook: %v''
      @ deferred_unhook e (SetWinEventHook e eventSystemForeground eventSystemForeground)
          ''Warning: Failed to unhook foreground event hook: %v'')"
proof -
  from assms(3) obtain t where "message_loop (MessageQueue e) = (Break, t)"
    by (cases "message_loop (MessageQueue e)") auto
  with assms(1,2) show ?thesis
    by (simp add: StartEventWatcher_def Let_def)
qed

text \<open>
  Claim C8. When the registration of the foreground hook gives no handle, the process
  exits through \<open>log.Fatalf\<close> and nothing else has been done; when the registration of
  the create/destroy hook gives no handle, the process exits in the same way. In both
  cases the message pump is never entered. When both hooks are registered and the loop
  is left, the function returns after the two deferred calls of \<open>UnhookWinEvent\<close>, the
  create/destroy hook first; a deferred call logs a warning when \<open>UnhookWinEvent\<close>
  returns 0 and does nothing else.
\<close>

theorem hook_failures:
  "(SetWinEventHook e eventSystemForeground eventSystemForeground = 0 \<longrightarrow>
      StartEventWatcher e =
        (Exited, [CallSetWinEventHook eventSystemForeground eventSystemForeground,
                  LogFatalf ''Fatal: Could not set foreground event hook: %v'']))
   \<and> (SetWinEventHook e eventSystemForeground eventSystemForeground \<noteq> 0
      \<and> SetWinEventHook e eventObjectCreate eventObjectDestroy = 0 \<longrightarrow>
      StartEventWatcher e =
        (Exited, [CallSetWinEventHook eventSystemForeground eventSystemForeground,
                  CallSetWinEventHook eventObjectCreate eventObjectDestroy,
                  LogFatalf ''Fatal: Could not set create/destroy event hook: %v'']))
   \<and> (SetWinEventHook e eventSystemForeground eventSystemForeground \<noteq> 0
      \<and> SetWinEventHook e eventObjectCreate eventObjectDestroy \<noteq> 0
      \<and> fst (message_loop (MessageQueue e)) = Break \<longrightarrow>
      StartEventWatcher e =
        (Returned,
         [CallSetWinEventHook eventSystemForeground eventSystemForeground,
          CallSetWinEventHook eventObjectCreate eventObjectDestroy]
         @ snd (message_loop (MessageQueue e))
         @ deferred_unhook e (SetWinEventHook e eventObjectCreate eventObjectDestroy)
             ''Warning: Failed to unhook create/destroy event hook: %v''
         @ deferred_unhook e (SetWinEventHook e eventSystemForeground eventSystemForeground)
             ''Warning: Failed to unhook foreground event hook: %v''))
   \<and> deferred_unhook e hook warning =
       CallUnhookWinEvent hook # (if UnhookWinEvent e hook = 0 then [LogPrintf warning] else [])"
  using StartEventWatcher_no_foreground_hook [of e] StartEventWatcher_no_create_hook [of e]
    StartEventWatcher_returns [of e] deferred_unhook_eq [of e hook warning]
  by blast

lemma desk_no_hook:
  "SetWinEventHook (desk\<lparr>SetWinEventHook := no_hook\<rparr>) eventSystemForeground eventSystemForeground = 0"
  by (simp add: no_hook_def)

lemma desk_foreground_hook_only:
  "SetWinEventHook (desk\<lparr>SetWinEventHook := foreground_hook_only\<rparr>)
     eventSystemForeground eventSystemForeground \<noteq> 0
   \<and> SetWinEventHook (desk\<lparr>SetWinEventHook := foreground_hook_only\<rparr>)
     eventObjectCreate eventObjectDestroy = 0"
  by (simp add: foreground_hook_only_def eventSystemForeground_def eventObjectCreate_def)

lemma desk_unhook_fails:
  "SetWinEventHook (desk\<lparr>UnhookWinEvent := unhook_fails\<rparr>)
     eventSystemForeground eventSystemForeground \<noteq> 0
   \<and> SetWinEventHook (desk\<lparr>UnhookWinEvent := unhook_fails\<rparr>)
     eventObjectCreate eventObjectDestroy \<noteq> 0
   \<and> fst (message_loop (MessageQueue (desk\<lparr>UnhookWinEvent := unhook_fails\<rparr>))) = Break"
  by (simp add: desk_defs watcher_defs)

lemma desk_unhook_trace:
  "snd (message_loop (MessageQueue (desk\<lparr>UnhookWinEvent := unhook_fails\<rparr>))) =
     [CallGetMessageW, CallTranslateMessage, CallDispatchMessageW, CallGetMessageW]"
  "SetWinEventHook (desk\<lparr>UnhookWinEvent := unhook_fails\<rparr>)
     eventSystemForeground eventSystemForeground = 16"
  "SetWinEventHook (desk\<lparr>UnhookWinEvent := unhook_fails\<rparr>)
     eventObjectCreate eventObjectDestroy = 17"
  "UnhookWinEvent (desk\<lparr>UnhookWinEvent := unhook_fails\<rparr>) 16 = 0"
  "UnhookWinEvent (desk\<lparr>UnhookWinEvent := unhook_fails\<rparr>) 17 = 0"
  by (simp_all add: desk_defs watcher_defs)

text \<open>
  On the concrete desktop: no hook at all, the foreground hook only, and both hooks with
  an \<open>UnhookWinEvent\<close> that fails after the pump has delivered one message and failed.
\<close>

theorem hook_failures_witness:
  "StartEventWatcher (desk\<lparr>SetWinEventHook := no_hook\<rparr>) =
     (Exited, [CallSetWinEventHook eventSystemForeground eventSystemForeground,
               LogFatalf ''Fatal: Could not set foreground event hook: %v''])
   \<and> StartEventWatcher (desk\<lparr>SetWinEventHook := foreground_hook_only\<rparr>) =
     (Exited, [CallSetWinEventHook eventSystemForeground eventSystemForeground,
               CallSetWinEventHook eventObjectCreate eventObjectDestroy,
               LogFatalf ''Fatal: Could not set create/destroy event hook: %v''])
   \<and> StartEventWatcher (desk\<lparr>UnhookWinEvent := unhook_fails\<rparr>) =
     (Returned,
      [CallSetWinEventHook eventSystemForeground eventSystemForeground,
       CallSetWinEventHook eventObjectCreate eventObjectDestroy,
       CallGetMessageW, CallTranslateMessage, CallDispatchMessageW, CallGetMessageW,
       CallUnhookWinEvent 17,
       LogPrintf ''Warning: Failed to unhook create/destroy event hook: %v'',
       CallUnhookWinEvent 16,
       LogPrintf ''Warning: Failed to unhook foreground event hook: %v''])"
proof -
  have 1: "StartEventWatcher (desk\<lparr>SetWinEventHook := no_hook\<rparr>) =
     (Exited, [CallSetWinEventHook eventSystemForeground eventSystemForeground,
               LogFatalf ''Fatal: Could not set foreground event hook: %v''])"
    using hook_failures [where e = "desk\<lparr>SetWinEventHook := no_hook\<rparr>"] desk_no_hook
    by blast
  have 2: "StartEventWatcher (desk\<lparr>SetWinEventHook := foreground_hook_only\<rparr>) =
     (Exited, [CallSetWinEventHook eventSystemForeground eventSystemForeground,
               CallSetWinEventHook eventObjectCreate eventObjectDestroy,
               LogFatalf ''Fatal: Could not set create/destroy event hook: %v''])"
    using hook_failures [where e = "desk\<lparr>SetWinEventHook := foreground_hook_only\<rparr>"]
      desk_foreground_hook_only
    by blast
  have "StartEventWatcher (desk\<lparr>UnhookWinEvent := unhook_fails\<rparr>) =
        (Returned,
         [CallSetWinEventHook eventSystemForeground eventSystemForeground,
          CallSetWinEventHook eventObjectCreate eventObjectDestroy]
         @ snd (message_loop (MessageQueue (desk\<lparr>UnhookWinEvent := unhook_fails\<rparr>)))
         @ deferred_unhook (desk\<lparr>UnhookWinEvent := unhook_fails\<rparr>)
             (SetWinEventHook (desk\<lparr>UnhookWinEvent := unhook_fails\<rparr>) eventObjectCreate eventObjectDestroy)
             ''Warning: Failed to unhook create/destroy event hook: %v''
         @ deferred_unhook (desk\<lparr>UnhookWinEvent := unhook_fails\<rparr>)
             (SetWinEventHook (desk\<lparr>UnhookWinEvent := unhook_fails\<rparr>) eventSystemForeground eventSystemForeground)
             ''Warning: Failed to unhook foreground event hook: %v'')"
    using hook_failures [where e = "desk\<lparr>UnhookWinEvent := unhook_fails\<rparr>"] desk_unhook_fails
    by blast
  then have 3: "StartEventWatcher (desk\<lparr>UnhookWinEvent := unhook_fails\<rparr>) =
     (Returned,
      [CallSetWinEventHook eventSystemForeground eventSystemForeground,
       CallSetWinEventHook eventObjectCreate eventObjectDestroy,
       CallGetMessageW, CallTranslateMessage, CallDispatchMessageW, CallGetMessageW,
       CallUnhookWinEvent 17,
       LogPrintf ''Warning: Failed to unhook create/destroy event hook: %v'',
       CallUnhookWinEvent 16,
       LogPrintf ''Warning: Failed to unhook foreground event hook: %v''])"
    by (simp only: desk_unhook_trace deferred_unhook_eq) simp
  from 1 2 3 show ?thesis by blast
qed

section \<open>The message loop\<close>

lemma message_loop_Break:
  "fst (message_loop ms) = Break \<Longrightarrow> \<exists>m\<in>set ms. int32 (Ret m) = - 1"
proof (induction ms)
  case Nil
  then show ?case by simp
next
  case (Cons m ms)
  show ?case
  proof (cases "int32 (Ret m) = - 1")
    case True
    then show ?thesis by simp
  next
    case False
    with Cons.prems have "fst (message_loop ms) = Break"
      by (simp add: case_prod_unfold split: if_splits)
    with Cons.IH show ?thesis by simp
  qed
qed

lemma message_loop_quit_goes_on:
  "quit_retrieved m \<Longrightarrow> \<not> errno_set (TranslateErr m) \<Longrightarrow> \<not> errno_set (DispatchErr m) \<Longrightarrow>
   message_loop (m # ms) =
     (fst (message_loop ms),
      [CallGetMessageW, CallTranslateMessage, CallDispatchMessageW] @ snd (message_loop ms))"
  by (simp add: quit_retrieved_def case_prod_unfold)

text \<open>
  Claim C9 against the code. \<open>GetMessageW\<close> returns 0 for the quit message, and the
  loop compares the result with -1 only. The quit message is translated and dispatched
  like any other message and \<open>GetMessageW\<close> is called again: the function that
  \<open>StartEventWatcher\<close> started is still pumping. The loop is left when \<open>GetMessageW\<close>
  returns -1, which reports a failure and no quit message.
\<close>

theorem quit_message_is_dispatched:
  "quit_retrieved quit_message
   \<and> message_loop [quit_message] =
       (Blocked, [CallGetMessageW, CallTranslateMessage, CallDispatchMessageW, CallGetMessageW])
   \<and> fst (StartEventWatcher (desk\<lparr>MessageQueue := [quit_message]\<rparr>)) = Pumping
   \<and> \<not> quit_retrieved failed_message
   \<and> message_loop [failed_message] = (Break, [CallGetMessageW])"
  by (simp add: quit_retrieved_def quit_message_def failed_message_def desk_defs watcher_defs)

end
